theory Spec2Isabelle
  imports Main "HOL-Library.AList" "HOL-Library.Word"
begin

section \<open>Strings and errors of the host language\<close>

text \<open>
  Strings are lists of code units; the characters of this development stand for the code
  units below 256. A thrown \<^verbatim>\<open>Error\<close> carries its message; a rejected file-system call
  carries the \<^verbatim>\<open>code\<close> property that the adapters inspect and the path it was made
  on; \<open>Thrown\<close> is a thrown value that is no instance of \<^verbatim>\<open>Error\<close>.
\<close>

datatype js_error =
    Error string
  | SystemError string string
  | Thrown string

fun code_of :: "js_error \<Rightarrow> string option" where
  "code_of (Error m) = None"
| "code_of (SystemError c p) = Some c"
| "code_of (Thrown v) = None"

fun instanceofError :: "js_error \<Rightarrow> bool" where
  "instanceofError (Thrown v) = False"
| "instanceofError e = True"

fun message :: "js_error \<Rightarrow> string" where
  "message (Error m) = m"
| "message (SystemError c p) = c @ '': '' @ p"
| "message (Thrown v) = v"

text \<open>The white space that \<^verbatim>\<open>String.prototype.trim\<close> removes, among the code units below 256.\<close>

definition isWhiteSpace :: "char \<Rightarrow> bool" where
  "isWhiteSpace c = (of_char c \<in> {9, 10, 11, 12, 13, 32, 160 :: nat})"

definition trim :: "string \<Rightarrow> string" where
  "trim s = rev (dropWhile isWhiteSpace (rev (dropWhile isWhiteSpace s)))"

definition startsWith :: "string \<Rightarrow> string \<Rightarrow> bool" where
  "startsWith s p = (take (length p) s = p)"

definition endsWith :: "string \<Rightarrow> string \<Rightarrow> bool" where
  "endsWith s p = (length p \<le> length s \<and> drop (length s - length p) s = p)"

definition lastIndexOf :: "string \<Rightarrow> char \<Rightarrow> nat option" where
  "lastIndexOf s c =
     (if c \<in> set s then Some (length s - 1 - length (takeWhile (\<lambda>x. x \<noteq> c) (rev s)))
      else None)"

section \<open>The POSIX path module\<close>

text \<open>
  \<^verbatim>\<open>pathUtils.ts\<close> and the adapters call \<^verbatim>\<open>path.normalize\<close>, \<^verbatim>\<open>path.join\<close>,
  \<^verbatim>\<open>path.resolve\<close> and \<^verbatim>\<open>path.isAbsolute\<close> of the runtime. They are modelled here for
  the POSIX flavour, loop by loop. The runtime's \<^verbatim>\<open>normalizeString\<close> scans the path by
  index and keeps \<^verbatim>\<open>lastSlash\<close>; the model scans the list of characters and keeps the
  characters read since the last separator (\<open>seg\<close>), so that \<^verbatim>\<open>lastSlash === i - 1\<close> is
  \<open>seg = []\<close> and \<^verbatim>\<open>path.slice(lastSlash + 1, i)\<close> is \<open>seg\<close>.
\<close>

definition isPosixPathSeparator :: "char \<Rightarrow> bool" where
  "isPosixPathSeparator c = (c = CHR ''/'')"

record ns_state =
  res :: string
  lastSegmentLength :: nat
  seg :: string
  dots :: int

definition ns_next :: "ns_state \<Rightarrow> ns_state" where
  "ns_next st = st\<lparr>seg := [], dots := 0\<rparr>"

definition ns_above :: "bool \<Rightarrow> ns_state \<Rightarrow> ns_state" where
  "ns_above allowAboveRoot st =
     (if allowAboveRoot
      then ns_next (st\<lparr>res := res st @ (if res st \<noteq> [] then ''/..'' else ''..''),
                        lastSegmentLength := 2\<rparr>)
      else ns_next st)"

definition ns_sep :: "bool \<Rightarrow> ns_state \<Rightarrow> ns_state" where
  "ns_sep allowAboveRoot st =
     (if seg st = [] \<or> dots st = 1 then ns_next st
      else if dots st = 2 then
        (if length (res st) < 2 \<or> lastSegmentLength st \<noteq> 2 \<or>
            last (res st) \<noteq> CHR ''.'' \<or> last (butlast (res st)) \<noteq> CHR ''.''
         then
           (if length (res st) > 2 then
              (case lastIndexOf (res st) CHR ''/'' of
                 None \<Rightarrow> ns_next (st\<lparr>res := [], lastSegmentLength := 0\<rparr>)
               | Some j \<Rightarrow>
                   (let r = take j (res st)
                    in ns_next (st\<lparr>res := r,
                          lastSegmentLength :=
                            (case lastIndexOf r CHR ''/'' of
                               None \<Rightarrow> length r
                             | Some k \<Rightarrow> length r - 1 - k)\<rparr>)))
            else if res st \<noteq> [] then ns_next (st\<lparr>res := [], lastSegmentLength := 0\<rparr>)
            else ns_above allowAboveRoot st)
         else ns_above allowAboveRoot st)
      else ns_next (st\<lparr>res := (if res st \<noteq> [] then res st @ ''/'' @ seg st else seg st),
                        lastSegmentLength := length (seg st)\<rparr>))"

definition ns_char :: "bool \<Rightarrow> char \<Rightarrow> ns_state \<Rightarrow> ns_state" where
  "ns_char allowAboveRoot c st =
     (if isPosixPathSeparator c then ns_sep allowAboveRoot st
      else if c = CHR ''.'' \<and> dots st \<noteq> -1
        then st\<lparr>seg := seg st @ [c], dots := dots st + 1\<rparr>
      else st\<lparr>seg := seg st @ [c], dots := -1\<rparr>)"

text \<open>
  The loop runs to \<^verbatim>\<open>i = path.length\<close> inclusive: past the end it stops when the last
  code read was a separator, and otherwise handles one more separator.
\<close>

fun ns_loop :: "bool \<Rightarrow> string \<Rightarrow> char \<Rightarrow> ns_state \<Rightarrow> string" where
  "ns_loop allowAboveRoot [] code st =
     (if isPosixPathSeparator code then res st else res (ns_sep allowAboveRoot st))"
| "ns_loop allowAboveRoot (c # cs) code st =
     ns_loop allowAboveRoot cs c (ns_char allowAboveRoot c st)"

definition normalizeString :: "string \<Rightarrow> bool \<Rightarrow> string" where
  "normalizeString path allowAboveRoot =
     ns_loop allowAboveRoot path (CHR 0x00)
       \<lparr>res = [], lastSegmentLength = 0, seg = [], dots = 0\<rparr>"

definition path_isAbsolute :: "string \<Rightarrow> bool" where
  "path_isAbsolute path = (path \<noteq> [] \<and> hd path = CHR ''/'')"

definition path_normalize :: "string \<Rightarrow> string" where
  "path_normalize path =
     (if path = [] then ''.''
      else
        (let isAbs = (hd path = CHR ''/'');
             trailingSeparator = (last path = CHR ''/'');
             p = normalizeString path (\<not> isAbs)
         in if p = [] then (if isAbs then ''/'' else if trailingSeparator then ''./'' else ''.'')
            else (let q = (if trailingSeparator then p @ ''/'' else p)
                  in if isAbs then ''/'' @ q else q)))"

fun join_args :: "string option \<Rightarrow> string list \<Rightarrow> string option" where
  "join_args joined [] = joined"
| "join_args joined (arg # args) =
     (if arg \<noteq> []
      then join_args (case joined of None \<Rightarrow> Some arg | Some j \<Rightarrow> Some (j @ ''/'' @ arg)) args
      else join_args joined args)"

definition path_join :: "string list \<Rightarrow> string" where
  "path_join args =
     (if args = [] then ''.''
      else (case join_args None args of None \<Rightarrow> ''.'' | Some joined \<Rightarrow> path_normalize joined))"

text \<open>
  \<^verbatim>\<open>path.resolve\<close> walks its arguments from the last to the first and then the working
  directory, until the path built so far is absolute.
\<close>

fun resolve_loop :: "string list \<Rightarrow> string \<Rightarrow> bool \<Rightarrow> string \<times> bool" where
  "resolve_loop [] resolvedPath resolvedAbsolute = (resolvedPath, resolvedAbsolute)"
| "resolve_loop (p # ps) resolvedPath resolvedAbsolute =
     (if resolvedAbsolute then (resolvedPath, resolvedAbsolute)
      else if p = [] then resolve_loop ps resolvedPath resolvedAbsolute
      else resolve_loop ps (p @ ''/'' @ resolvedPath) (hd p = CHR ''/''))"

definition path_resolve :: "string \<Rightarrow> string list \<Rightarrow> string" where
  "path_resolve cwd args =
     (case resolve_loop (rev args @ [cwd]) [] False of
        (resolvedPath, resolvedAbsolute) \<Rightarrow>
          (let r = normalizeString resolvedPath (\<not> resolvedAbsolute)
           in if resolvedAbsolute then ''/'' @ r
              else if r \<noteq> [] then r else ''.''))"

text \<open>
  \<^verbatim>\<open>path.dirname\<close> scans the path from its last character down to the second for the
  first separator that follows a character that is not one.
\<close>

fun dirname_loop :: "string \<Rightarrow> nat \<Rightarrow> bool \<Rightarrow> nat option" where
  "dirname_loop path 0 matchedSlash = None"
| "dirname_loop path (Suc i) matchedSlash =
     (if path ! Suc i = CHR ''/''
      then (if \<not> matchedSlash then Some (Suc i) else dirname_loop path i matchedSlash)
      else dirname_loop path i False)"

definition path_dirname :: "string \<Rightarrow> string" where
  "path_dirname path =
     (if length path = 0 then ''.''
      else let hasRoot = (path ! 0 = CHR ''/'')
           in case dirname_loop path (length path - 1) True of
                None \<Rightarrow> if hasRoot then ''/'' else ''.''
              | Some stop \<Rightarrow> if hasRoot \<and> stop = 1 then ''//'' else take stop path)"

subsection \<open>Paths as lists of segments\<close>

text \<open>
  What normalizing means, said on segments rather than on characters, to compare the loop
  of the runtime with: a path is cut at its separators; an empty segment and \<^verbatim>\<open>.\<close> are
  dropped, \<^verbatim>\<open>..\<close> takes the last segment kept away (and nothing at the root), any other
  segment is kept; the segments kept are joined with single separators. \<open>ns_inv\<close> ties a
  state of the loop, for a path that may not rise above its root, to the segments kept
  so far.
\<close>

fun join_segments :: "string list \<Rightarrow> string" where
  "join_segments [] = []"
| "join_segments [s] = s"
| "join_segments (s # t # ss) = s @ ''/'' @ join_segments (t # ss)"

definition plain_segment :: "string \<Rightarrow> bool" where
  "plain_segment s \<longleftrightarrow> s \<noteq> [] \<and> CHR ''/'' \<notin> set s \<and> s \<noteq> ''.'' \<and> s \<noteq> ''..''"

definition resolve_segment :: "string list \<Rightarrow> string \<Rightarrow> string list" where
  "resolve_segment stack s =
     (if s = [] \<or> s = ''.'' then stack else if s = ''..'' then butlast stack else stack @ [s])"

fun resolve_segments :: "string list \<Rightarrow> string \<Rightarrow> string \<Rightarrow> string list" where
  "resolve_segments stack s [] = resolve_segment stack s"
| "resolve_segments stack s (c # cs) =
     (if c = CHR ''/'' then resolve_segments (resolve_segment stack s) [] cs
      else resolve_segments stack (s @ [c]) cs)"

definition ns_inv :: "string list \<Rightarrow> ns_state \<Rightarrow> bool" where
  "ns_inv stack st \<longleftrightarrow>
     res st = join_segments stack \<and> (\<forall>s\<in>set stack. plain_segment s) \<and>
     lastSegmentLength st = (if stack = [] then 0 else length (last stack)) \<and>
     CHR ''/'' \<notin> set (seg st) \<and>
     dots st = (if set (seg st) \<subseteq> {CHR ''.''} then int (length (seg st)) else -1)"

section \<open>pathUtils.ts\<close>

text \<open>
  The process environment that \<^verbatim>\<open>resolveBoardPath\<close> reads: \<^verbatim>\<open>os.homedir()\<close> and the
  working directory that \<^verbatim>\<open>path.resolve\<close> falls back on.
\<close>

record process_env =
  homedir :: string
  cwd :: string

definition relative_path_message :: "string \<Rightarrow> string" where
  "relative_path_message boardPath =
     ''Relative path \"'' @ boardPath @ ''\" cannot be used in global settings. '' @
     ''Use an absolute path or ~/ for home directory.''"

definition resolveBoardPath :: "process_env \<Rightarrow> string \<Rightarrow> string option \<Rightarrow> js_error + string" where
  "resolveBoardPath env boardPath basePath =
     (if boardPath = [] \<or> trim boardPath = [] then
        (case basePath of
           Some b \<Rightarrow> if b \<noteq> [] then Inr b else Inl (Error ''Empty path provided'')
         | None \<Rightarrow> Inl (Error ''Empty path provided''))
      else
        (let expandedPath =
               (if startsWith boardPath ''~''
                then path_join [homedir env, drop 1 boardPath] else boardPath)
         in if path_isAbsolute expandedPath then Inr (path_normalize expandedPath)
            else (case basePath of
                    None \<Rightarrow> Inl (Error (relative_path_message boardPath))
                  | Some b \<Rightarrow> Inr (path_normalize (path_resolve (cwd env) [b, expandedPath])))))"

section \<open>The host file system\<close>

text \<open>
  The calls of \<^verbatim>\<open>fs.promises\<close> that the adapters make act on the disk of the host. The
  disk has one entry per path, a file with its content or a directory; the root \<^verbatim>\<open>/\<close> is
  a directory without an entry. A call first walks the parent directories of its path,
  from the top: a missing one fails the call with \<^verbatim>\<open>ENOENT\<close>, a file in the place of one
  with \<^verbatim>\<open>ENOTDIR\<close>. A path names its entry as it is written: there are no links, and two
  spellings of a path are two paths. \<open>denied\<close> is a set of paths on which permission is
  denied, so that a call can fail for yet another reason, and \<open>calls\<close> is the log of the
  calls made, which tells a call that went to the disk from one that did not.
\<close>

datatype fs_entry = File string | Directory

datatype fs_call =
    Access string nat
  | ReadFile string
  | WriteFile string string
  | Mkdir string bool
  | Rename string string
  | Unlink string

record disk =
  entries :: "string \<Rightarrow> fs_entry option"
  denied :: "string set"
  calls :: "fs_call list"

definition fs_log :: "fs_call \<Rightarrow> disk \<Rightarrow> disk" where
  "fs_log c d = d\<lparr>calls := calls d @ [c]\<rparr>"

text \<open>
  The parent directories of a path, from the top: the part of the path before each
  separator that ends a component.
\<close>

fun parents_from :: "string \<Rightarrow> string \<Rightarrow> string list" where
  "parents_from before [] = []"
| "parents_from before (c # cs) =
     (if c = CHR ''/'' \<and> before \<noteq> [] \<and> last before \<noteq> CHR ''/''
      then before # parents_from (before @ [c]) cs
      else parents_from (before @ [c]) cs)"

definition parents :: "string \<Rightarrow> string list" where
  "parents p = parents_from [] p"

definition stat :: "(string \<Rightarrow> fs_entry option) \<Rightarrow> string \<Rightarrow> fs_entry option" where
  "stat es p = (if p = ''/'' then Some Directory else es p)"

fun fs_walk :: "(string \<Rightarrow> fs_entry option) \<Rightarrow> string \<Rightarrow> string list \<Rightarrow> js_error option" where
  "fs_walk es p [] = None"
| "fs_walk es p (q # qs) =
     (case stat es q of
        None \<Rightarrow> Some (SystemError ''ENOENT'' p)
      | Some (File content) \<Rightarrow> Some (SystemError ''ENOTDIR'' p)
      | Some Directory \<Rightarrow> fs_walk es p qs)"

definition fs_access :: "string \<Rightarrow> nat \<Rightarrow> disk \<Rightarrow> (js_error + unit) \<times> disk" where
  "fs_access p mode d =
     (case fs_walk (entries d) p (parents p) of
        Some e \<Rightarrow> (Inl e, fs_log (Access p mode) d)
      | None \<Rightarrow>
          (case stat (entries d) p of
             None \<Rightarrow> (Inl (SystemError ''ENOENT'' p), fs_log (Access p mode) d)
           | Some e \<Rightarrow>
               if p \<in> denied d then (Inl (SystemError ''EACCES'' p), fs_log (Access p mode) d)
               else (Inr (), fs_log (Access p mode) d)))"

definition fs_readFile :: "string \<Rightarrow> disk \<Rightarrow> (js_error + string) \<times> disk" where
  "fs_readFile p d =
     (case fs_walk (entries d) p (parents p) of
        Some e \<Rightarrow> (Inl e, fs_log (ReadFile p) d)
      | None \<Rightarrow>
          (case stat (entries d) p of
             None \<Rightarrow> (Inl (SystemError ''ENOENT'' p), fs_log (ReadFile p) d)
           | Some Directory \<Rightarrow> (Inl (SystemError ''EISDIR'' p), fs_log (ReadFile p) d)
           | Some (File content) \<Rightarrow>
               if p \<in> denied d then (Inl (SystemError ''EACCES'' p), fs_log (ReadFile p) d)
               else (Inr content, fs_log (ReadFile p) d)))"

definition fs_writeFile :: "string \<Rightarrow> string \<Rightarrow> disk \<Rightarrow> (js_error + unit) \<times> disk" where
  "fs_writeFile p data d =
     (case fs_walk (entries d) p (parents p) of
        Some e \<Rightarrow> (Inl e, fs_log (WriteFile p data) d)
      | None \<Rightarrow>
          if stat (entries d) p = Some Directory
          then (Inl (SystemError ''EISDIR'' p), fs_log (WriteFile p data) d)
          else if p \<in> denied d then (Inl (SystemError ''EACCES'' p), fs_log (WriteFile p data) d)
          else (Inr (), fs_log (WriteFile p data) (d\<lparr>entries := (entries d)(p \<mapsto> File data)\<rparr>)))"

text \<open>
  \<^verbatim>\<open>mkdir\<close> with \<^verbatim>\<open>recursive\<close> creates the missing directories on the way, the path itself
  last; it stops at a file (\<^verbatim>\<open>EEXIST\<close> when the file is at the path itself) and keeps what
  it has created by then. Without \<^verbatim>\<open>recursive\<close> the parents must be there and the path
  must be free.
\<close>

fun mkdir_all ::
  "string \<Rightarrow> string set \<Rightarrow> string list \<Rightarrow> (string \<Rightarrow> fs_entry option) \<Rightarrow>
     (js_error + unit) \<times> (string \<Rightarrow> fs_entry option)" where
  "mkdir_all p den [] es = (Inr (), es)"
| "mkdir_all p den (q # qs) es =
     (case stat es q of
        Some Directory \<Rightarrow> mkdir_all p den qs es
      | Some (File content) \<Rightarrow>
          (Inl (SystemError (if qs = [] then ''EEXIST'' else ''ENOTDIR'') p), es)
      | None \<Rightarrow>
          if q \<in> den then (Inl (SystemError ''EACCES'' p), es)
          else mkdir_all p den qs (es(q \<mapsto> Directory)))"

definition fs_mkdir :: "string \<Rightarrow> bool \<Rightarrow> disk \<Rightarrow> (js_error + unit) \<times> disk" where
  "fs_mkdir p recursive d =
     (if recursive
      then (case mkdir_all p (denied d) (parents p @ [p]) (entries d) of
              (r, es) \<Rightarrow> (r, fs_log (Mkdir p recursive) (d\<lparr>entries := es\<rparr>)))
      else case fs_walk (entries d) p (parents p) of
             Some e \<Rightarrow> (Inl e, fs_log (Mkdir p recursive) d)
           | None \<Rightarrow>
               (case stat (entries d) p of
                  Some e \<Rightarrow> (Inl (SystemError ''EEXIST'' p), fs_log (Mkdir p recursive) d)
                | None \<Rightarrow>
                    if p \<in> denied d
                    then (Inl (SystemError ''EACCES'' p), fs_log (Mkdir p recursive) d)
                    else (Inr (), fs_log (Mkdir p recursive)
                                    (d\<lparr>entries := (entries d)(p \<mapsto> Directory)\<rparr>))))"

text \<open>\<^verbatim>\<open>rename\<close> moves the one entry at the old path (the adapters rename files).\<close>

definition fs_rename :: "string \<Rightarrow> string \<Rightarrow> disk \<Rightarrow> (js_error + unit) \<times> disk" where
  "fs_rename oldPath newPath d =
     (case fs_walk (entries d) oldPath (parents oldPath) of
        Some e \<Rightarrow> (Inl e, fs_log (Rename oldPath newPath) d)
      | None \<Rightarrow>
          (case stat (entries d) oldPath of
             None \<Rightarrow> (Inl (SystemError ''ENOENT'' oldPath), fs_log (Rename oldPath newPath) d)
           | Some e \<Rightarrow>
               (case fs_walk (entries d) oldPath (parents newPath) of
                  Some e' \<Rightarrow> (Inl e', fs_log (Rename oldPath newPath) d)
                | None \<Rightarrow>
                    if oldPath \<in> denied d \<or> newPath \<in> denied d
                    then (Inl (SystemError ''EACCES'' oldPath), fs_log (Rename oldPath newPath) d)
                    else (Inr (), fs_log (Rename oldPath newPath)
                            (d\<lparr>entries := ((entries d)(oldPath := None))(newPath \<mapsto> e)\<rparr>)))))"

definition fs_unlink :: "string \<Rightarrow> disk \<Rightarrow> (js_error + unit) \<times> disk" where
  "fs_unlink p d =
     (case fs_walk (entries d) p (parents p) of
        Some e \<Rightarrow> (Inl e, fs_log (Unlink p) d)
      | None \<Rightarrow>
          (case stat (entries d) p of
             None \<Rightarrow> (Inl (SystemError ''ENOENT'' p), fs_log (Unlink p) d)
           | Some Directory \<Rightarrow> (Inl (SystemError ''EISDIR'' p), fs_log (Unlink p) d)
           | Some (File content) \<Rightarrow>
               if p \<in> denied d then (Inl (SystemError ''EACCES'' p), fs_log (Unlink p) d)
               else (Inr (), fs_log (Unlink p) (d\<lparr>entries := (entries d)(p := None)\<rparr>))))"

section \<open>The file-system adapters\<close>

text \<open>
  Three classes named \<^verbatim>\<open>VscodeFileSystemAdapter\<close> are in the repository: the disk-backed
  one bound to a single document, the fully virtual one bound to a single document, and
  the disk-backed one that keeps callbacks for several documents. A getter and a setter
  are closures over the editor's documents: functions of the state \<open>'w\<close> that holds the
  documents. A \<^verbatim>\<open>Map\<close> is an association list in insertion order (\<open>AList.update\<close> keeps
  the place of a key that is present and appends a new one). Of a \<^verbatim>\<open>vscode.Uri\<close> only
  \<^verbatim>\<open>fsPath\<close> is read.
\<close>

record Uri =
  fsPath :: string

definition replace_backslashes :: "string \<Rightarrow> string" where
  "replace_backslashes s = map (\<lambda>c. if c = CHR 0x5C then CHR ''/'' else c) s"

definition normalizePath :: "string \<Rightarrow> string" where
  "normalizePath filePath = replace_backslashes (path_normalize filePath)"

definition has :: "('k \<times> 'v) list \<Rightarrow> 'k \<Rightarrow> bool" where
  "has m k = (map_of m k \<noteq> None)"

definition access_message :: "string \<Rightarrow> string" where
  "access_message filePath = ''ENOENT: no such file or directory, access '' @ [CHR 0x27] @ filePath @ [CHR 0x27]"

definition open_message :: "string \<Rightarrow> string" where
  "open_message filePath = ''ENOENT: no such file or directory, open '' @ [CHR 0x27] @ filePath @ [CHR 0x27]"

definition rename_message :: "string \<Rightarrow> string \<Rightarrow> string" where
  "rename_message oldPath newPath =
     ''ENOENT: no such file or directory, rename '' @ [CHR 0x27] @ oldPath @ [CHR 0x27] @
     '' -> '' @ [CHR 0x27] @ newPath @ [CHR 0x27]"

text \<open>\<^verbatim>\<open>mode || (fs.constants.R_OK | fs.constants.W_OK)\<close>: an absent or zero mode is 4 | 2.\<close>

definition access_mode :: "nat option \<Rightarrow> nat" where
  "access_mode mode = (case mode of None \<Rightarrow> 6 | Some m \<Rightarrow> if m = 0 then 6 else m)"

subsection \<open>The adapters bound to a single document\<close>

record 'w adapter =
  documentUri :: Uri
  getDocumentContent :: "'w \<Rightarrow> string"
  setDocumentContent :: "string \<Rightarrow> 'w \<Rightarrow> 'w"
  onDidChangeEmitter :: "string list"
  fileContentMap :: "(string \<times> string) list"
  fileExistsMap :: "(string \<times> bool) list"

definition new_adapter :: "Uri \<Rightarrow> ('w \<Rightarrow> string) \<Rightarrow> (string \<Rightarrow> 'w \<Rightarrow> 'w) \<Rightarrow> 'w adapter" where
  "new_adapter uri getter setter =
     \<lparr>documentUri = uri, getDocumentContent = getter, setDocumentContent = setter,
      onDidChangeEmitter = [], fileContentMap = [], fileExistsMap = []\<rparr>"

definition isMainIndexFile :: "('w, 'x) adapter_scheme \<Rightarrow> string \<Rightarrow> bool" where
  "isMainIndexFile a normalizedPath = (normalizedPath = normalizePath (fsPath (documentUri a)))"

text \<open>
  The fall-through of \<^verbatim>\<open>access\<close> and \<^verbatim>\<open>readFile\<close>, shared by the three classes: the virtual
  maps first, then the disk, any failure of which becomes a plain \<^verbatim>\<open>Error\<close>.
\<close>

definition access_fallback ::
  "('w, 'x) adapter_scheme \<Rightarrow> string \<Rightarrow> nat option \<Rightarrow> disk \<Rightarrow> (js_error + unit) \<times> disk" where
  "access_fallback a filePath mode d =
     (case map_of (fileExistsMap a) (normalizePath filePath) of
        Some b \<Rightarrow> if \<not> b then (Inl (Error (access_message filePath)), d) else (Inr (), d)
      | None \<Rightarrow>
          (case fs_access filePath (access_mode mode) d of
             (Inl e, d') \<Rightarrow> (Inl (Error (access_message filePath)), d')
           | (Inr u, d') \<Rightarrow> (Inr (), d')))"

definition readFile_fallback ::
  "('w, 'x) adapter_scheme \<Rightarrow> string \<Rightarrow> disk \<Rightarrow> (js_error + string) \<times> disk" where
  "readFile_fallback a filePath d =
     (case map_of (fileContentMap a) (normalizePath filePath) of
        Some content \<Rightarrow> (Inr content, d)
      | None \<Rightarrow>
          (case fs_readFile filePath d of
             (Inl e, d') \<Rightarrow> (Inl (Error (open_message filePath)), d')
           | (Inr content, d') \<Rightarrow> (Inr content, d')))"

definition access :: "'w adapter \<Rightarrow> string \<Rightarrow> nat option \<Rightarrow> disk \<Rightarrow> (js_error + unit) \<times> disk" where
  "access a filePath mode d =
     (if isMainIndexFile a (normalizePath filePath) then (Inr (), d)
      else access_fallback a filePath mode d)"

definition readFile :: "'w adapter \<Rightarrow> string \<Rightarrow> 'w \<Rightarrow> disk \<Rightarrow> (js_error + string) \<times> disk" where
  "readFile a filePath w d =
     (if isMainIndexFile a (normalizePath filePath) then (Inr (getDocumentContent a w), d)
      else readFile_fallback a filePath d)"

text \<open>The disk-backed class: \<^verbatim>\<open>src/VscodeFileSystemAdapter.ts\<close>.\<close>

definition writeFile ::
  "'w adapter \<Rightarrow> string \<Rightarrow> string \<Rightarrow> 'w \<Rightarrow> disk \<Rightarrow> (js_error + unit) \<times> 'w \<times> disk" where
  "writeFile a filePath data w d =
     (if isMainIndexFile a (normalizePath filePath)
      then (Inr (), setDocumentContent a data w, d)
      else (case fs_writeFile filePath data d of (r, d') \<Rightarrow> (r, w, d')))"

definition mkdir :: "string \<Rightarrow> bool \<Rightarrow> disk \<Rightarrow> (js_error + unit) \<times> disk" where
  "mkdir dirPath recursive d =
     (case fs_mkdir dirPath recursive d of
        (Inl e, d') \<Rightarrow> if code_of e \<noteq> Some ''EEXIST'' then (Inl e, d') else (Inr (), d')
      | (Inr u, d') \<Rightarrow> (Inr (), d'))"

definition rename :: "string \<Rightarrow> string \<Rightarrow> disk \<Rightarrow> (js_error + unit) \<times> disk" where
  "rename oldPath newPath d =
     (case fs_rename oldPath newPath d of
        (Inl e, d') \<Rightarrow> (Inl (Error (rename_message oldPath newPath)), d')
      | (Inr u, d') \<Rightarrow> (Inr (), d'))"

definition unlink :: "string \<Rightarrow> disk \<Rightarrow> (js_error + unit) \<times> disk" where
  "unlink filePath d =
     (case fs_unlink filePath d of
        (Inl e, d') \<Rightarrow> if code_of e \<noteq> Some ''ENOENT'' then (Inl e, d') else (Inr (), d')
      | (Inr u, d') \<Rightarrow> (Inr (), d'))"

text \<open>
  \<^verbatim>\<open>glob\<close> of the disk-backed classes hands the pattern to the glob library; the outcome
  of that call is an argument of the model.
\<close>

definition glob :: "js_error + string list \<Rightarrow> string list" where
  "glob realFiles = (case realFiles of Inl e \<Rightarrow> [] | Inr files \<Rightarrow> files)"

subsection \<open>The fully virtual adapter\<close>

text \<open>
  The fully virtual class has the same \<^verbatim>\<open>access\<close> and \<^verbatim>\<open>readFile\<close>; its other
  operations act on the two maps only and fire the change emitter.
\<close>

definition writeFile_virtual ::
  "'w adapter \<Rightarrow> string \<Rightarrow> string \<Rightarrow> 'w \<Rightarrow> (js_error + unit) \<times> 'w adapter \<times> 'w" where
  "writeFile_virtual a filePath data w =
     (if isMainIndexFile a (normalizePath filePath)
      then (Inr (), a, setDocumentContent a data w)
      else (Inr (),
            a\<lparr>fileContentMap := AList.update (normalizePath filePath) data (fileContentMap a),
              fileExistsMap := AList.update (normalizePath filePath) True (fileExistsMap a),
              onDidChangeEmitter := onDidChangeEmitter a @ [filePath]\<rparr>,
            w))"

definition mkdir_virtual :: "'w adapter \<Rightarrow> string \<Rightarrow> bool \<Rightarrow> (js_error + unit) \<times> 'w adapter" where
  "mkdir_virtual a dirPath recursive =
     (Inr (), a\<lparr>fileExistsMap := AList.update (normalizePath dirPath) True (fileExistsMap a)\<rparr>)"

definition rename_virtual :: "'w adapter \<Rightarrow> string \<Rightarrow> string \<Rightarrow> (js_error + unit) \<times> 'w adapter" where
  "rename_virtual a oldPath newPath =
     (case map_of (fileContentMap a) (normalizePath oldPath) of
        None \<Rightarrow> (Inl (Error (rename_message oldPath newPath)), a)
      | Some content \<Rightarrow>
          (Inr (),
           a\<lparr>fileContentMap :=
                AList.delete (normalizePath oldPath)
                  (AList.update (normalizePath newPath) content (fileContentMap a)),
             fileExistsMap :=
                AList.delete (normalizePath oldPath)
                  (AList.update (normalizePath newPath) True (fileExistsMap a)),
             onDidChangeEmitter := onDidChangeEmitter a @ [newPath]\<rparr>))"

definition unlink_virtual :: "'w adapter \<Rightarrow> string \<Rightarrow> (js_error + unit) \<times> 'w adapter" where
  "unlink_virtual a filePath =
     (Inr (),
      a\<lparr>fileContentMap := AList.delete (normalizePath filePath) (fileContentMap a),
        fileExistsMap := AList.delete (normalizePath filePath) (fileExistsMap a),
        onDidChangeEmitter := onDidChangeEmitter a @ [filePath]\<rparr>)"

text \<open>
  \<^verbatim>\<open>pattern.substring(0, lastSlash)\<close> and \<^verbatim>\<open>pattern.substring(lastSlash + 1)\<close>, where
  \<^verbatim>\<open>lastSlash\<close> is \<open>-1\<close> for a pattern with no separator.
\<close>

definition glob_directory :: "string \<Rightarrow> string" where
  "glob_directory pattern = (case lastIndexOf pattern CHR ''/'' of None \<Rightarrow> [] | Some i \<Rightarrow> take i pattern)"

definition glob_filePattern :: "string \<Rightarrow> string" where
  "glob_filePattern pattern =
     (case lastIndexOf pattern CHR ''/'' of None \<Rightarrow> pattern | Some i \<Rightarrow> drop (i + 1) pattern)"

definition glob_virtual_files :: "'w adapter \<Rightarrow> string \<Rightarrow> string list" where
  "glob_virtual_files a pattern =
     (if glob_filePattern pattern = ''*.md''
      then filter (\<lambda>filePath. startsWith filePath (normalizePath (glob_directory pattern)) \<and>
                               endsWith filePath ''.md'')
             (map fst (fileContentMap a))
      else [])"

definition glob_virtual :: "'w adapter \<Rightarrow> string \<Rightarrow> js_error + string list \<Rightarrow> string list" where
  "glob_virtual a pattern realFiles =
     glob_virtual_files a pattern @
     (case realFiles of
        Inl e \<Rightarrow> []
      | Inr files \<Rightarrow> filter (\<lambda>realFile. \<not> has (fileContentMap a) (normalizePath realFile)) files)"

text \<open>
  What it is for a path to match the pattern \<^verbatim>\<open>D/*.md\<close> of the glob library, for a
  directory path \<open>D\<close> taken literally: the path is \<open>D\<close>, a separator and a name that has
  no separator in it, ends in \<^verbatim>\<open>.md\<close>, has something before that ending, and does not begin
  with a dot (the library lets \<^verbatim>\<open>*\<close> stand for any run of characters other than the
  separator, and not for a leading dot).
\<close>

definition matches_md :: "string \<Rightarrow> string \<Rightarrow> bool" where
  "matches_md directory filePath \<longleftrightarrow>
     startsWith filePath (directory @ ''/'') \<and> endsWith filePath ''.md'' \<and>
     (let name = drop (length directory + 1) filePath
      in 3 < length name \<and> CHR ''/'' \<notin> set name \<and> \<not> startsWith name ''.'')"

subsection \<open>The adapter for several documents\<close>

record 'w DocumentCallbacks =
  getContent :: "'w \<Rightarrow> string"
  setContent :: "string \<Rightarrow> 'w \<Rightarrow> 'w"

record 'w multi_adapter = "'w adapter" +
  documentCallbacks :: "(string \<times> 'w DocumentCallbacks) list"

definition new_multi_adapter ::
  "Uri \<Rightarrow> ('w \<Rightarrow> string) \<Rightarrow> (string \<Rightarrow> 'w \<Rightarrow> 'w) \<Rightarrow> 'w multi_adapter" where
  "new_multi_adapter uri getter setter =
     \<lparr>documentUri = uri, getDocumentContent = getter, setDocumentContent = setter,
      onDidChangeEmitter = [], fileContentMap = [], fileExistsMap = [],
      documentCallbacks = [(fsPath uri, \<lparr>getContent = getter, setContent = setter\<rparr>)]\<rparr>"

definition addDocumentCallbacks ::
  "'w multi_adapter \<Rightarrow> Uri \<Rightarrow> ('w \<Rightarrow> string) \<Rightarrow> (string \<Rightarrow> 'w \<Rightarrow> 'w) \<Rightarrow> 'w multi_adapter" where
  "addDocumentCallbacks a uri getter setter =
     a\<lparr>documentCallbacks :=
         AList.update (fsPath uri) \<lparr>getContent = getter, setContent = setter\<rparr> (documentCallbacks a)\<rparr>"

definition removeDocumentCallbacks :: "'w multi_adapter \<Rightarrow> Uri \<Rightarrow> 'w multi_adapter" where
  "removeDocumentCallbacks a uri =
     a\<lparr>documentCallbacks := AList.delete (fsPath uri) (documentCallbacks a)\<rparr>"

definition access_multi ::
  "'w multi_adapter \<Rightarrow> string \<Rightarrow> nat option \<Rightarrow> disk \<Rightarrow> (js_error + unit) \<times> disk" where
  "access_multi a filePath mode d =
     (if has (documentCallbacks a) (normalizePath filePath) then (Inr (), d)
      else access_fallback a filePath mode d)"

definition readFile_multi ::
  "'w multi_adapter \<Rightarrow> string \<Rightarrow> 'w \<Rightarrow> disk \<Rightarrow> (js_error + string) \<times> disk" where
  "readFile_multi a filePath w d =
     (case map_of (documentCallbacks a) (normalizePath filePath) of
        Some cb \<Rightarrow> (Inr (getContent cb w), d)
      | None \<Rightarrow> readFile_fallback a filePath d)"

definition writeFile_multi ::
  "'w multi_adapter \<Rightarrow> string \<Rightarrow> string \<Rightarrow> 'w \<Rightarrow> disk \<Rightarrow> (js_error + unit) \<times> 'w \<times> disk" where
  "writeFile_multi a filePath data w d =
     (case map_of (documentCallbacks a) (normalizePath filePath) of
        Some cb \<Rightarrow> (Inr (), setContent cb data w, d)
      | None \<Rightarrow> (case fs_writeFile filePath data d of (r, d') \<Rightarrow> (r, w, d')))"

text \<open>
  \<^verbatim>\<open>mkdir\<close>, \<^verbatim>\<open>rename\<close>, \<^verbatim>\<open>unlink\<close> and \<^verbatim>\<open>glob\<close> of this class have the bodies of the
  disk-backed class bound to one document: \<open>mkdir\<close>, \<open>rename\<close>, \<open>unlink\<close> and \<open>glob\<close>
  above.
\<close>

section \<open>The editor documents\<close>

text \<open>
  \<^verbatim>\<open>KanbnBoardDocument\<close> and \<^verbatim>\<open>KanbnTaskDocument\<close> keep the bytes of the document in
  \<^verbatim>\<open>_documentData\<close>. Nothing writes into that array in place (every update assigns a new
  array), so the array is a value. A change event carries two closures; each closure is
  the array it captured, and \<open>undo\<close> and \<open>redo\<close> run them. \<open>changeEvents\<close> is what was
  fired on \<^verbatim>\<open>_onDidChangeDocument\<close>, \<open>refreshes\<close> counts the calls of \<^verbatim>\<open>_onUndoRedo\<close>.
\<close>

type_synonym bytes = "8 word list"

record change_event =
  label :: string
  oldDocumentData :: bytes
  newDocumentData :: bytes

record document =
  documentData :: bytes
  changeEvents :: "change_event list"
  onUndoRedo :: bool
  refreshes :: nat

text \<open>What the handlers of the editor act on: the document and the messages shown to the user.\<close>

record editor =
  doc :: document
  shownErrors :: "string list"

definition call_onUndoRedo :: "document \<Rightarrow> document" where
  "call_onUndoRedo dc = (if onUndoRedo dc then dc\<lparr>refreshes := refreshes dc + 1\<rparr> else dc)"

definition undo :: "change_event \<Rightarrow> document \<Rightarrow> document" where
  "undo ev dc = call_onUndoRedo (dc\<lparr>documentData := oldDocumentData ev\<rparr>)"

definition redo :: "change_event \<Rightarrow> document \<Rightarrow> document" where
  "redo ev dc = call_onUndoRedo (dc\<lparr>documentData := newDocumentData ev\<rparr>)"

definition fire :: "change_event \<Rightarrow> document \<Rightarrow> document" where
  "fire ev dc = dc\<lparr>changeEvents := changeEvents dc @ [ev]\<rparr>"

text \<open>
  \<^verbatim>\<open>makeEdit\<close> is the same in both document classes but for logging. The edit callback
  is a computation on the editor that resolves or rejects, and leaves its effects either
  way; a rejection leaves \<^verbatim>\<open>makeEdit\<close> at the \<^verbatim>\<open>await\<close>.
\<close>

definition makeEdit ::
  "string \<Rightarrow> (editor \<Rightarrow> (js_error + unit) \<times> editor) \<Rightarrow> editor \<Rightarrow> (js_error + unit) \<times> editor" where
  "makeEdit lbl editCallback ed =
     (let old = documentData (doc ed)
      in case editCallback ed of
           (Inl e, ed') \<Rightarrow> (Inl e, ed')
         | (Inr u, ed') \<Rightarrow>
             (let new = documentData (doc ed')
              in (Inr (),
                  ed'\<lparr>doc := fire \<lparr>label = lbl, oldDocumentData = old, newDocumentData = new\<rparr>
                                (doc ed')\<rparr>)))"

text \<open>
  The callback of the \<^verbatim>\<open>kanbn.move\<close> handler: the task store's \<^verbatim>\<open>moveTask\<close> is a
  parameter; an \<^verbatim>\<open>Error\<close> it throws is shown and swallowed, any other value is rethrown.
\<close>

definition move_callback ::
  "(editor \<Rightarrow> (js_error + unit) \<times> editor) \<Rightarrow> editor \<Rightarrow> (js_error + unit) \<times> editor" where
  "move_callback moveTask ed =
     (case moveTask ed of
        (Inl e, ed') \<Rightarrow>
          if instanceofError e
          then (Inr (), ed'\<lparr>shownErrors := shownErrors ed' @ [message e]\<rparr>)
          else (Inl e, ed')
      | (Inr u, ed') \<Rightarrow> (Inr (), ed'))"

text \<open>
  The closures that \<^verbatim>\<open>initializeForWebview\<close> hands to the adapter or to the manager read
  and replace \<^verbatim>\<open>_documentData\<close> of their own document, through \<^verbatim>\<open>TextDecoder\<close> and
  \<^verbatim>\<open>TextEncoder\<close> of the host, which are parameters here. The state they act on holds the
  open documents, each under its key.
\<close>

definition document_getter :: "(bytes \<Rightarrow> string) \<Rightarrow> 'u \<Rightarrow> ('u \<Rightarrow> document) \<Rightarrow> string" where
  "document_getter decode u w = decode (documentData (w u))"

definition document_setter ::
  "(string \<Rightarrow> bytes) \<Rightarrow> 'u \<Rightarrow> string \<Rightarrow> ('u \<Rightarrow> document) \<Rightarrow> ('u \<Rightarrow> document)" where
  "document_setter encode u content w = w(u := (w u)\<lparr>documentData := encode content\<rparr>)"

section \<open>The global manager\<close>

text \<open>
  \<^verbatim>\<open>KanbnGlobalManager\<close> keeps one \<^verbatim>\<open>Kanbn\<close> instance and one adapter per board path.
  Adapters and \<^verbatim>\<open>Kanbn\<close> instances are objects with an identity: each \<^verbatim>\<open>new\<close> takes the
  next reference (\<open>allocated\<close> counts the objects made so far), the adapters live in a
  store under their references, and a \<^verbatim>\<open>Kanbn\<close> instance is its reference, its board path
  and the reference of the adapter it was constructed with (none when it was constructed on
  the default file system). The clean-up closure kept
  per document captures the adapter record of the board and the document's \<^verbatim>\<open>Uri\<close>.
\<close>

record Kanbn =
  kanbn_ref :: nat
  kanbn_boardPath :: string
  kanbn_fs :: "nat option"

datatype cleanup = RemoveDocumentCallbacks nat Uri

record DocumentAdapter =
  adapter :: nat
  documentCallbacks_of :: "(string \<times> cleanup) list"

record 'w KanbnGlobalManager =
  kanbnInstances :: "(string \<times> Kanbn) list"
  documentAdapters :: "(string \<times> DocumentAdapter) list"
  adapters :: "nat \<Rightarrow> 'w multi_adapter option"
  allocated :: nat

definition new_manager :: "'w KanbnGlobalManager" where
  "new_manager = \<lparr>kanbnInstances = [], documentAdapters = [], adapters = Map.empty, allocated = 0\<rparr>"

definition update_adapter ::
  "nat \<Rightarrow> ('w multi_adapter \<Rightarrow> 'w multi_adapter) \<Rightarrow> 'w KanbnGlobalManager \<Rightarrow> 'w KanbnGlobalManager" where
  "update_adapter r f m =
     (case adapters m r of None \<Rightarrow> m | Some a \<Rightarrow> m\<lparr>adapters := (adapters m)(r \<mapsto> f a)\<rparr>)"

fun run_cleanup :: "cleanup \<Rightarrow> 'w KanbnGlobalManager \<Rightarrow> 'w KanbnGlobalManager" where
  "run_cleanup (RemoveDocumentCallbacks r uri) m =
     update_adapter r (\<lambda>a. removeDocumentCallbacks a uri) m"

definition getKanbnForDocument ::
  "'w KanbnGlobalManager \<Rightarrow> Uri \<Rightarrow> string \<Rightarrow> ('w \<Rightarrow> string) \<Rightarrow> (string \<Rightarrow> 'w \<Rightarrow> 'w) \<Rightarrow>
     Kanbn \<times> 'w KanbnGlobalManager" where
  "getKanbnForDocument m uri boardPath getter setter =
     (let documentKey = fsPath uri;
          (info, m1) =
            (case map_of (documentAdapters m) boardPath of
               None \<Rightarrow>
                 (let r = allocated m;
                      info = \<lparr>adapter = r, documentCallbacks_of = []\<rparr>
                  in (info,
                      m\<lparr>adapters := (adapters m)(r \<mapsto> new_multi_adapter uri getter setter),
                        allocated := r + 1,
                        documentAdapters := AList.update boardPath info (documentAdapters m)\<rparr>))
             | Some info \<Rightarrow>
                 (info, update_adapter (adapter info)
                          (\<lambda>a. addDocumentCallbacks a uri getter setter) m));
          info' = info\<lparr>documentCallbacks_of :=
                    AList.update documentKey (RemoveDocumentCallbacks (adapter info) uri)
                      (documentCallbacks_of info)\<rparr>;
          m2 = m1\<lparr>documentAdapters := AList.update boardPath info' (documentAdapters m1)\<rparr>
      in case map_of (kanbnInstances m2) boardPath of
           None \<Rightarrow>
             (let kanbn = \<lparr>kanbn_ref = allocated m2, kanbn_boardPath = boardPath,
                           kanbn_fs = Some (adapter info')\<rparr>
              in (kanbn,
                  m2\<lparr>kanbnInstances := AList.update boardPath kanbn (kanbnInstances m2),
                     allocated := allocated m2 + 1\<rparr>))
         | Some kanbn \<Rightarrow> (kanbn, m2))"

definition cleanupDocument :: "'w KanbnGlobalManager \<Rightarrow> Uri \<Rightarrow> string \<Rightarrow> 'w KanbnGlobalManager" where
  "cleanupDocument m uri boardPath =
     (let documentKey = fsPath uri
      in case map_of (documentAdapters m) boardPath of
           None \<Rightarrow> m
         | Some info \<Rightarrow>
             (let (info1, m1) =
                    (case map_of (documentCallbacks_of info) documentKey of
                       None \<Rightarrow> (info, m)
                     | Some cleanup \<Rightarrow>
                         (info\<lparr>documentCallbacks_of :=
                                 AList.delete documentKey (documentCallbacks_of info)\<rparr>,
                          run_cleanup cleanup m))
              in if length (documentCallbacks_of info1) = 0
                 then m1\<lparr>documentAdapters := AList.delete boardPath (documentAdapters m1),
                         kanbnInstances := AList.delete boardPath (kanbnInstances m1)\<rparr>
                 else m1\<lparr>documentAdapters := AList.update boardPath info1 (documentAdapters m1)\<rparr>))"

definition getStats :: "'w KanbnGlobalManager \<Rightarrow> nat \<times> nat \<times> nat" where
  "getStats m =
     (length (kanbnInstances m), length (documentAdapters m),
      sum_list (map (\<lambda>(b, info). length (documentCallbacks_of info)) (documentAdapters m)))"

text \<open>The calls that documents make on the manager over a session, and their effect in order.\<close>

datatype 'w request =
    Acquire Uri string "'w \<Rightarrow> string" "string \<Rightarrow> 'w \<Rightarrow> 'w"
  | Release Uri string

fun apply_request :: "'w request \<Rightarrow> 'w KanbnGlobalManager \<Rightarrow> 'w KanbnGlobalManager" where
  "apply_request (Acquire uri boardPath getter setter) m =
     snd (getKanbnForDocument m uri boardPath getter setter)"
| "apply_request (Release uri boardPath) m = cleanupDocument m uri boardPath"

fun run_requests :: "'w request list \<Rightarrow> 'w KanbnGlobalManager \<Rightarrow> 'w KanbnGlobalManager" where
  "run_requests [] m = m"
| "run_requests (r # rs) m = run_requests rs (apply_request r m)"

definition registered :: "'w KanbnGlobalManager \<Rightarrow> string \<Rightarrow> bool" where
  "registered m boardPath = has (documentAdapters m) boardPath"

text \<open>The board has a registration before the requests and after each of them.\<close>

fun stays_registered :: "string \<Rightarrow> 'w request list \<Rightarrow> 'w KanbnGlobalManager \<Rightarrow> bool" where
  "stays_registered boardPath [] m = registered m boardPath"
| "stays_registered boardPath (r # rs) m =
     (registered m boardPath \<and> stays_registered boardPath rs (apply_request r m))"

text \<open>
  The documents registered for a board as the calls themselves say, without looking into
  the manager: \<^verbatim>\<open>getKanbnForDocument\<close> registers the document under its path for the board
  it names, \<^verbatim>\<open>cleanupDocument\<close> releases it. \<open>remains_registered\<close> holds when that set,
  starting from \<open>S\<close>, is not empty before the requests and after each of them.
\<close>

fun documents_step :: "string \<Rightarrow> string set \<Rightarrow> 'w request \<Rightarrow> string set" where
  "documents_step B S (Acquire uri boardPath getter setter) =
     (if boardPath = B then insert (fsPath uri) S else S)"
| "documents_step B S (Release uri boardPath) =
     (if boardPath = B then S - {fsPath uri} else S)"

definition registered_documents :: "string \<Rightarrow> 'w request list \<Rightarrow> string set" where
  "registered_documents B rs = foldl (documents_step B) {} rs"

fun remains_registered :: "string \<Rightarrow> string set \<Rightarrow> 'w request list \<Rightarrow> bool" where
  "remains_registered B S [] = (S \<noteq> {})"
| "remains_registered B S (r # rs) = (S \<noteq> {} \<and> remains_registered B (documents_step B S r) rs)"

text \<open>The documents that the manager itself holds for a board: the keys of its clean-up closures.\<close>

definition registration_keys :: "'w KanbnGlobalManager \<Rightarrow> string \<Rightarrow> string set" where
  "registration_keys m B =
     (case map_of (documentAdapters m) B of
        None \<Rightarrow> {}
      | Some info \<Rightarrow> set (map fst (documentCallbacks_of info)))"

text \<open>
  The state of the registry that every sequence of calls keeps: each map has one entry per
  board path; the \<^verbatim>\<open>Kanbn\<close> instance of a board carries that board path and the adapter of
  the board's registration; a registration has at least one document, a \<^verbatim>\<open>Kanbn\<close>
  instance, an adapter in the store whose callback keys are the registered documents, and
  clean-up closures for that adapter; the instances and adapters of different boards are
  different objects.
\<close>

definition one_per_board :: "'w KanbnGlobalManager \<Rightarrow> bool" where
  "one_per_board m \<longleftrightarrow>
     distinct (map fst (kanbnInstances m)) \<and> distinct (map fst (documentAdapters m)) \<and>
     (\<forall>B k. map_of (kanbnInstances m) B = Some k \<longrightarrow>
        kanbn_boardPath k = B \<and> kanbn_ref k < allocated m \<and>
        kanbn_fs k \<noteq> None \<and>
        map_option adapter (map_of (documentAdapters m) B) = kanbn_fs k) \<and>
     (\<forall>B info. map_of (documentAdapters m) B = Some info \<longrightarrow>
        adapter info < allocated m \<and> documentCallbacks_of info \<noteq> [] \<and>
        has (kanbnInstances m) B \<and>
        map_option (\<lambda>a. map fst (documentCallbacks a)) (adapters m (adapter info)) =
          Some (map fst (documentCallbacks_of info)) \<and>
        (\<forall>key c. map_of (documentCallbacks_of info) key = Some c \<longrightarrow>
           (\<exists>uri. c = RemoveDocumentCallbacks (adapter info) uri \<and> fsPath uri = key))) \<and>
     (\<forall>B B' k k'. map_of (kanbnInstances m) B = Some k \<longrightarrow> map_of (kanbnInstances m) B' = Some k' \<longrightarrow>
        kanbn_ref k = kanbn_ref k' \<longrightarrow> B = B') \<and>
     (\<forall>B B' i i'. map_of (documentAdapters m) B = Some i \<longrightarrow> map_of (documentAdapters m) B' = Some i' \<longrightarrow>
        adapter i = adapter i' \<longrightarrow> B = B')"


section \<open>The documents and their task stores\<close>

text \<open>
  Every custom document keeps a \<^verbatim>\<open>Kanbn\<close> instance in its field \<^verbatim>\<open>_kanbn\<close>. Both
  constructors make one on the default file system, \<^verbatim>\<open>new Kanbn(boardPath)\<close>, for the board
  path they take from the document's path with \<^verbatim>\<open>path.dirname\<close>. \<^verbatim>\<open>initializeForWebview\<close> of
  a board document replaces it by an instance on an adapter that the document constructs
  for itself; \<^verbatim>\<open>initializeForWebview\<close> of a task document replaces it by the instance that
  the global manager returns, and \<^verbatim>\<open>dispose\<close> of a task document releases the document
  there. The state of the extension is the manager (its counter \<open>allocated\<close> numbers all the
  objects made), the open documents under their paths, and the adapters that board
  documents made, under their references.
\<close>

datatype document_class = BoardDocument | TaskDocument

record custom_document =
  doc_class :: document_class
  doc_uri :: Uri
  doc_kanbn :: Kanbn

record extension =
  globalManager :: "(string \<Rightarrow> document) KanbnGlobalManager"
  customDocuments :: "(string \<times> custom_document) list"
  ownAdapters :: "(nat \<times> (string \<Rightarrow> document) adapter) list"

definition new_extension :: extension where
  "new_extension = \<lparr>globalManager = new_manager, customDocuments = [], ownAdapters = []\<rparr>"

definition boardPath_of :: "document_class \<Rightarrow> Uri \<Rightarrow> string" where
  "boardPath_of c uri =
     (case c of
        BoardDocument \<Rightarrow> path_dirname (path_dirname (fsPath uri))
      | TaskDocument \<Rightarrow> path_dirname (path_dirname (path_dirname (fsPath uri))))"

text \<open>The constructors of \<^verbatim>\<open>KanbnBoardDocument\<close> and \<^verbatim>\<open>KanbnTaskDocument\<close>.\<close>

definition new_document :: "document_class \<Rightarrow> Uri \<Rightarrow> extension \<Rightarrow> extension" where
  "new_document c uri ext =
     (let r = allocated (globalManager ext);
          kanbn = \<lparr>kanbn_ref = r, kanbn_boardPath = boardPath_of c uri, kanbn_fs = None\<rparr>
      in ext\<lparr>globalManager := (globalManager ext)\<lparr>allocated := r + 1\<rparr>,
             customDocuments :=
               AList.update (fsPath uri) \<lparr>doc_class = c, doc_uri = uri, doc_kanbn = kanbn\<rparr>
                 (customDocuments ext)\<rparr>)"

text \<open>
  \<^verbatim>\<open>initializeForWebview\<close> and \<^verbatim>\<open>dispose\<close> of the document open under \<open>key\<close>;
  \<^verbatim>\<open>TextDecoder\<close> and \<^verbatim>\<open>TextEncoder\<close> of the host are parameters.
\<close>

definition initializeForWebview ::
  "(bytes \<Rightarrow> string) \<Rightarrow> (string \<Rightarrow> bytes) \<Rightarrow> string \<Rightarrow> extension \<Rightarrow> extension" where
  "initializeForWebview decode encode key ext =
     (case map_of (customDocuments ext) key of
        None \<Rightarrow> ext
      | Some d \<Rightarrow>
          (let uri = doc_uri d;
               boardPath = boardPath_of (doc_class d) uri;
               getter = document_getter decode (fsPath uri);
               setter = document_setter encode (fsPath uri)
           in case doc_class d of
                BoardDocument \<Rightarrow>
                  (let r = allocated (globalManager ext);
                       fileSystemAdapter = new_adapter uri getter setter;
                       kanbn = \<lparr>kanbn_ref = r + 1, kanbn_boardPath = boardPath, kanbn_fs = Some r\<rparr>
                   in ext\<lparr>globalManager := (globalManager ext)\<lparr>allocated := r + 2\<rparr>,
                          ownAdapters := ownAdapters ext @ [(r, fileSystemAdapter)],
                          customDocuments :=
                            AList.update key (d\<lparr>doc_kanbn := kanbn\<rparr>) (customDocuments ext)\<rparr>)
              | TaskDocument \<Rightarrow>
                  (case getKanbnForDocument (globalManager ext) uri boardPath getter setter of
                     (kanbn, m) \<Rightarrow>
                       ext\<lparr>globalManager := m,
                           customDocuments :=
                             AList.update key (d\<lparr>doc_kanbn := kanbn\<rparr>) (customDocuments ext)\<rparr>)))"

definition dispose :: "string \<Rightarrow> extension \<Rightarrow> extension" where
  "dispose key ext =
     (case map_of (customDocuments ext) key of
        None \<Rightarrow> ext
      | Some d \<Rightarrow>
          (let ext' = ext\<lparr>customDocuments := AList.delete key (customDocuments ext)\<rparr>
           in case doc_class d of
                BoardDocument \<Rightarrow> ext'
              | TaskDocument \<Rightarrow>
                  ext'\<lparr>globalManager :=
                         cleanupDocument (globalManager ext) (doc_uri d)
                           (boardPath_of TaskDocument (doc_uri d))\<rparr>))"

text \<open>
  The \<^verbatim>\<open>Kanbn\<close> instances in use for a board: those that the open documents hold and the
  one in the registry, each once.
\<close>

definition kanbn_instances :: "extension \<Rightarrow> string \<Rightarrow> Kanbn list" where
  "kanbn_instances ext boardPath =
     remdups (filter (\<lambda>k. kanbn_boardPath k = boardPath)
                (map (\<lambda>(key, d). doc_kanbn d) (customDocuments ext) @
                 map snd (kanbnInstances (globalManager ext))))"

section \<open>Properties of the path resolver\<close>

lemma trim_empty_iff: "trim s = [] \<longleftrightarrow> (\<forall>c\<in>set s. isWhiteSpace c)"
proof
  assume "trim s = []"
  then have "\<forall>c\<in>set (dropWhile isWhiteSpace s). isWhiteSpace c"
    by (simp add: trim_def)
  then show "\<forall>c\<in>set s. isWhiteSpace c"
    by (metis dropWhile_eq_Nil_conv hd_dropWhile hd_in_set)
next
  assume "\<forall>c\<in>set s. isWhiteSpace c"
  then show "trim s = []"
    by (auto simp: trim_def dest: set_dropWhileD)
qed

text \<open>
  C6, as the code has it. For an empty or white-space-only \<^verbatim>\<open>boardPath\<close> the base path is
  returned unchanged when it is neither \<^verbatim>\<open>null\<close> nor the empty string (the test is
  \<^verbatim>\<open>if (basePath)\<close>); with \<^verbatim>\<open>null\<close> or the empty string the call throws an \<^verbatim>\<open>Error\<close> with
  the message "Empty path provided". Nothing else is thrown on such input.
\<close>

theorem resolveBoardPath_blank:
  assumes "\<forall>c\<in>set boardPath. isWhiteSpace c"
  shows "resolveBoardPath env boardPath basePath =
           (case basePath of
              None \<Rightarrow> Inl (Error ''Empty path provided'')
            | Some b \<Rightarrow> if b = [] then Inl (Error ''Empty path provided'') else Inr b)"
proof -
  from assms have "trim boardPath = []" by (simp add: trim_empty_iff)
  then show ?thesis
    by (simp add: resolveBoardPath_def split: option.splits)
qed

theorem resolveBoardPath_blank_witness:
  "resolveBoardPath \<lparr>homedir = ''/home/u'', cwd = ''/cwd''\<rparr> ''   '' (Some ''/ws'') = Inr ''/ws'' \<and>
   resolveBoardPath \<lparr>homedir = ''/home/u'', cwd = ''/cwd''\<rparr> [] None =
     Inl (Error ''Empty path provided'')"
  using resolveBoardPath_blank [of "''   ''" "\<lparr>homedir = ''/home/u'', cwd = ''/cwd''\<rparr>" "Some ''/ws''"]
        resolveBoardPath_blank [of "[]" "\<lparr>homedir = ''/home/u'', cwd = ''/cwd''\<rparr>" None]
  by (simp add: isWhiteSpace_def)

text \<open>
  C6 as stated fails where the base path is the empty string: it is not \<^verbatim>\<open>null\<close>, and the
  call throws instead of returning it.
\<close>

theorem resolveBoardPath_empty_base_counterexample:
  "resolveBoardPath \<lparr>homedir = ''/home/u'', cwd = ''/cwd''\<rparr> [] (Some []) =
     Inl (Error ''Empty path provided'')"
  by (simp add: resolveBoardPath_def)

subsection \<open>Paths that are not blank\<close>

lemma ns_sep_seg: "seg (ns_sep a st) = []"
  by (simp add: ns_sep_def ns_next_def ns_above_def Let_def split: option.splits)

lemma ns_sep_idle: "seg st = [] \<Longrightarrow> res (ns_sep a st) = res st"
  by (simp add: ns_sep_def ns_next_def)

lemma ns_loop_trailing:
  "(isPosixPathSeparator code \<longrightarrow> seg st = []) \<Longrightarrow>
   ns_loop a (s @ ''/'') code st = ns_loop a s code st"
proof (induction s arbitrary: code st)
  case Nil
  then show ?case
    by (simp add: ns_char_def isPosixPathSeparator_def ns_sep_idle)
next
  case (Cons c cs)
  have "isPosixPathSeparator c \<longrightarrow> seg (ns_char a c st) = []"
    by (simp add: ns_char_def ns_sep_seg)
  then show ?case using Cons.IH by simp
qed

lemma normalizeString_trailing: "normalizeString (s @ ''/'') a = normalizeString s a"
  unfolding normalizeString_def
  by (rule ns_loop_trailing) (simp add: isPosixPathSeparator_def)

lemma path_normalize_absolute: "path_isAbsolute p \<Longrightarrow> path_isAbsolute (path_normalize p)"
  by (simp add: path_isAbsolute_def path_normalize_def Let_def)

lemma path_join_absolute:
  assumes "path_isAbsolute h"
  shows "path_isAbsolute (path_join [h, r])"
proof -
  from assms have "path_isAbsolute (h @ ''/'' @ r)"
    by (cases h) (simp_all add: path_isAbsolute_def)
  with assms have "path_isAbsolute (path_normalize (if r = [] then h else h @ ''/'' @ r))"
    by (simp add: path_normalize_absolute)
  moreover from assms have "path_join [h, r] = path_normalize (if r = [] then h else h @ ''/'' @ r)"
    by (simp add: path_join_def path_isAbsolute_def)
  ultimately show ?thesis by simp
qed

lemma path_resolve_absolute_base:
  assumes "path_isAbsolute b" "p \<noteq> []" "\<not> path_isAbsolute p"
  shows "path_resolve c [b, p] = ''/'' @ normalizeString (b @ ''/'' @ p) False"
proof -
  have "path_resolve c [b, p] = ''/'' @ normalizeString ((b @ ''/'' @ p) @ ''/'') False"
    using assms by (simp add: path_resolve_def path_isAbsolute_def)
  then show ?thesis by (simp only: normalizeString_trailing)
qed

lemma path_join_absolute_base:
  assumes "path_isAbsolute b" "p \<noteq> []"
  shows "path_join [b, p] =
    (if last p = CHR ''/'' \<and> normalizeString (b @ ''/'' @ p) False \<noteq> []
     then ''/'' @ normalizeString (b @ ''/'' @ p) False @ ''/''
     else ''/'' @ normalizeString (b @ ''/'' @ p) False)"
  using assms by (simp add: path_join_def path_normalize_def path_isAbsolute_def Let_def)

lemma startsWith_tilde_not_absolute: "path_isAbsolute p \<Longrightarrow> \<not> startsWith p ''~''"
  by (cases p) (simp_all add: path_isAbsolute_def startsWith_def)

lemma join_segments_snoc: "join_segments (ss @ [s]) = (if ss = [] then s else join_segments ss @ ''/'' @ s)"
  by (induction ss rule: join_segments.induct) auto

lemma join_segments_empty: "\<forall>s\<in>set ss. s \<noteq> [] \<Longrightarrow> join_segments ss = [] \<longleftrightarrow> ss = []"
  by (induction ss rule: join_segments.induct) auto

lemma lastIndexOf_none: "c \<notin> set s \<Longrightarrow> lastIndexOf s c = None"
  by (simp add: lastIndexOf_def)

lemma lastIndexOf_last:
  assumes "c \<notin> set s"
  shows "lastIndexOf (r @ c # s) c = Some (length r)"
proof -
  from assms have "takeWhile (\<lambda>x. x \<noteq> c) (rev s @ c # rev r) = rev s"
    by (subst takeWhile_append2) auto
  then show ?thesis by (simp add: lastIndexOf_def)
qed

lemma join_segments_slash_free:
  "\<forall>s\<in>set ss. CHR ''/'' \<notin> set s \<Longrightarrow> CHR ''/'' \<in> set (join_segments ss) \<longleftrightarrow> 2 \<le> length ss"
  by (induction ss rule: join_segments.induct) auto

lemma only_dots_1: "set s \<subseteq> {CHR ''.''} \<Longrightarrow> length s = 1 \<Longrightarrow> s = ''.''"
  by (cases s) auto

lemma only_dots_2: "set s \<subseteq> {CHR ''.''} \<Longrightarrow> length s = 2 \<Longrightarrow> s = ''..''"
  by (cases s; cases "tl s") auto

lemma ns_inv_pop:
  assumes inv: "ns_inv stack st" and s: "seg st = ''..''"
  shows "ns_inv (butlast stack) (ns_sep False st)"
proof (cases stack rule: rev_cases)
  case Nil
  with inv s show ?thesis
    by (simp add: ns_inv_def ns_sep_def ns_above_def ns_next_def)
next
  case (snoc bs l)
  from inv snoc have l: "plain_segment l" and bs: "\<forall>s\<in>set bs. plain_segment s"
    and r: "res st = (if bs = [] then l else join_segments bs @ ''/'' @ l)"
    and n: "lastSegmentLength st = length l"
    by (auto simp: ns_inv_def join_segments_snoc)
  from l have lne: "l \<noteq> []" "CHR ''/'' \<notin> set l" "l \<noteq> ''..''" by (auto simp: plain_segment_def)
  from inv s have d: "dots st = 2" by (simp add: ns_inv_def)
  have C: "length (res st) < 2 \<or> lastSegmentLength st \<noteq> 2 \<or>
            last (res st) \<noteq> CHR ''.'' \<or> last (butlast (res st)) \<noteq> CHR ''.''"
  proof (rule ccontr)
    assume "\<not> ?thesis"
    then have a: "length l = 2" "last (res st) = CHR ''.''" "last (butlast (res st)) = CHR ''.''"
      using n by auto
    from a(1) obtain x y where xy: "l = [x, y]"
      by (cases l; cases "tl l") auto
    with r a(2,3) have "x = CHR ''.''" "y = CHR ''.''"
      by (auto simp: butlast_append split: if_splits)
    with xy lne(3) show False by simp
  qed
  show ?thesis
  proof (cases "bs = []")
    case True
    with r have rl: "res st = l" by simp
    with lne have "lastIndexOf (res st) CHR ''/'' = None" by (simp add: lastIndexOf_none)
    with C d s rl lne inv snoc True show ?thesis
      by (auto simp: ns_sep_def ns_next_def ns_inv_def)
  next
    case False
    with r have rl: "res st = join_segments bs @ [CHR ''/''] @ l" by simp
    with lne have li: "lastIndexOf (res st) CHR ''/'' = Some (length (join_segments bs))"
      by (simp add: lastIndexOf_last)
    from False bs have nb: "join_segments bs \<noteq> []"
      by (auto simp: join_segments_empty plain_segment_def)
    from rl lne nb have len: "length (res st) > 2"
      by (cases "join_segments bs"; cases l) auto
    have tk: "take (length (join_segments bs)) (res st) = join_segments bs" by (simp add: rl)
    have ll: "(case lastIndexOf (join_segments bs) CHR ''/'' of None \<Rightarrow> length (join_segments bs)
                | Some k \<Rightarrow> length (join_segments bs) - 1 - k) = length (last bs)"
    proof (cases bs rule: rev_cases)
      case Nil with False show ?thesis by simp
    next
      case (snoc cs m)
      with bs have m: "CHR ''/'' \<notin> set m" by (auto simp: plain_segment_def)
      show ?thesis
      proof (cases "cs = []")
        case True
        with snoc m show ?thesis by (simp add: lastIndexOf_none)
      next
        case False
        with snoc have "join_segments bs = join_segments cs @ [CHR ''/''] @ m" by (simp add: join_segments_snoc)
        with m snoc show ?thesis by (simp add: lastIndexOf_last)
      qed
    qed
    from C d s len li tk ll inv snoc False bs show ?thesis
      by (simp add: ns_sep_def ns_next_def ns_inv_def Let_def)
  qed
qed

lemma ns_inv_sep:
  assumes inv: "ns_inv stack st"
  shows "ns_inv (resolve_segment stack (seg st)) (ns_sep False st)"
proof -
  consider "seg st = []" | "seg st = ''.''" | "seg st = ''..''"
    | "seg st \<noteq> []" "seg st \<noteq> ''.''" "seg st \<noteq> ''..''" by blast
  then show ?thesis
  proof cases
    case 1
    with inv show ?thesis by (simp add: resolve_segment_def ns_sep_def ns_next_def ns_inv_def)
  next
    case 2
    with inv show ?thesis by (simp add: resolve_segment_def ns_sep_def ns_next_def ns_inv_def)
  next
    case 3
    with ns_inv_pop[OF inv] show ?thesis by (simp add: resolve_segment_def)
  next
    case 4
    from inv have d: "dots st = (if set (seg st) \<subseteq> {CHR ''.''} then int (length (seg st)) else -1)"
      by (simp add: ns_inv_def)
    from 4 d have d1: "dots st \<noteq> 1"
      using only_dots_1[of "seg st"] by (auto split: if_splits)
    from 4 d have d2: "dots st \<noteq> 2"
      using only_dots_2[of "seg st"] by (auto split: if_splits)
    from inv 4 have ns: "plain_segment (seg st)" by (simp add: ns_inv_def plain_segment_def)
    from inv have e: "res st = [] \<longleftrightarrow> stack = []"
      by (auto simp: ns_inv_def join_segments_empty plain_segment_def)
    from inv 4 d1 d2 ns e show ?thesis
      by (auto simp: resolve_segment_def ns_sep_def ns_next_def ns_inv_def join_segments_snoc)
  qed
qed


lemma ns_inv_char:
  assumes "c \<noteq> CHR ''/''" and inv: "ns_inv stack st"
  shows "ns_inv stack (ns_char False c st) \<and> seg (ns_char False c st) = seg st @ [c]"
  using assms by (auto simp: ns_char_def isPosixPathSeparator_def ns_inv_def)

lemma ns_loop_segments:
  "ns_inv stack st \<Longrightarrow> (isPosixPathSeparator code \<longrightarrow> seg st = []) \<Longrightarrow>
   ns_loop False s code st = join_segments (resolve_segments stack (seg st) s)"
proof (induction s arbitrary: stack st code)
  case Nil
  show ?case
  proof (cases "isPosixPathSeparator code")
    case True
    with Nil show ?thesis by (simp add: resolve_segment_def ns_inv_def)
  next
    case False
    with ns_inv_sep[OF Nil(1)] show ?thesis by (simp add: ns_inv_def)
  qed
next
  case (Cons c cs)
  show ?case
  proof (cases "c = CHR ''/''")
    case True
    have "ns_loop False cs c (ns_sep False st) =
            join_segments (resolve_segments (resolve_segment stack (seg st)) (seg (ns_sep False st)) cs)"
      by (rule Cons.IH[OF ns_inv_sep[OF Cons.prems(1)]]) (simp add: ns_sep_seg)
    with True show ?thesis
      by (simp add: ns_char_def isPosixPathSeparator_def ns_sep_seg)
  next
    case False
    from ns_inv_char[OF False Cons.prems(1)]
    have i: "ns_inv stack (ns_char False c st)" and sg: "seg (ns_char False c st) = seg st @ [c]"
      by simp_all
    have "ns_loop False cs c (ns_char False c st) =
            join_segments (resolve_segments stack (seg (ns_char False c st)) cs)"
      by (rule Cons.IH[OF i]) (simp add: False isPosixPathSeparator_def)
    with False sg show ?thesis by simp
  qed
qed

lemma normalizeString_resolve_segments: "normalizeString s False = join_segments (resolve_segments [] [] s)"
proof -
  have "ns_inv [] \<lparr>res = [], lastSegmentLength = 0, seg = [], dots = 0\<rparr>"
    by (simp add: ns_inv_def)
  from ns_loop_segments[OF this, of "CHR 0x00" s] show ?thesis
    by (simp add: normalizeString_def)
qed

lemma resolve_segment_plain:
  "\<forall>x\<in>set stack. plain_segment x \<Longrightarrow> CHR ''/'' \<notin> set sg \<Longrightarrow> \<forall>x\<in>set (resolve_segment stack sg). plain_segment x"
  by (auto simp: resolve_segment_def plain_segment_def dest: in_set_butlastD)

lemma resolve_segments_plain:
  "\<forall>x\<in>set stack. plain_segment x \<Longrightarrow> CHR ''/'' \<notin> set sg \<Longrightarrow> \<forall>x\<in>set (resolve_segments stack sg s). plain_segment x"
proof (induction s arbitrary: stack sg)
  case Nil
  then show ?case using resolve_segment_plain[of stack sg] by simp
next
  case (Cons c cs)
  show ?case
  proof (cases "c = CHR ''/''")
    case True
    from Cons.IH[OF resolve_segment_plain[OF Cons.prems], of "[]"] True show ?thesis by simp
  next
    case False
    with Cons.prems(2) have "CHR ''/'' \<notin> set (sg @ [c])" by simp
    from Cons.IH[OF Cons.prems(1) this] False show ?thesis by simp
  qed
qed

lemma resolve_segments_append_seg: "CHR ''/'' \<notin> set t \<Longrightarrow> resolve_segments stack sg (t @ r) = resolve_segments stack (sg @ t) r"
  by (induction t arbitrary: sg) auto

lemma resolve_segment_push: "plain_segment s \<Longrightarrow> resolve_segment stack s = stack @ [s]"
  by (simp add: resolve_segment_def plain_segment_def)

lemma resolve_segments_render: "\<forall>x\<in>set ss. plain_segment x \<Longrightarrow> resolve_segments stack [] (join_segments ss) = stack @ ss"
proof (induction ss arbitrary: stack rule: join_segments.induct)
  case 1
  show ?case by (simp add: resolve_segment_def)
next
  case (2 s)
  then have n: "plain_segment s" by simp
  then have "CHR ''/'' \<notin> set s" by (simp add: plain_segment_def)
  from resolve_segments_append_seg[OF this, of stack "[]" "[]"] n show ?case
    by (simp add: resolve_segment_push)
next
  case (3 s t ss)
  then have n: "plain_segment s" and rest: "\<forall>x\<in>set (t # ss). plain_segment x" by simp_all
  from n have "CHR ''/'' \<notin> set s" by (simp add: plain_segment_def)
  from resolve_segments_append_seg[OF this, of stack "[]" "CHR ''/'' # join_segments (t # ss)"]
  have "resolve_segments stack [] (join_segments (s # t # ss)) = resolve_segments (resolve_segment stack s) [] (join_segments (t # ss))"
    by simp
  also have "\<dots> = (stack @ [s]) @ t # ss"
    using "3.IH"[OF rest, of "stack @ [s]"] n by (simp add: resolve_segment_push)
  finally show ?case by simp
qed

lemma normalizeString_segments:
  "\<exists>ss. (\<forall>s\<in>set ss. plain_segment s) \<and> normalizeString p False = join_segments ss"
  using resolve_segments_plain[of "[]" "[]" p] by (auto simp: normalizeString_resolve_segments)

lemma normalizeString_idem:
  "normalizeString (normalizeString p False) False = normalizeString p False"
  using resolve_segments_plain[of "[]" "[]" p] resolve_segments_render[of "resolve_segments [] [] p" "[]"]
  by (simp add: normalizeString_resolve_segments)

lemma join_segments_last:
  "\<forall>s\<in>set ss. plain_segment s \<Longrightarrow> ss \<noteq> [] \<Longrightarrow> join_segments ss \<noteq> [] \<and> last (join_segments ss) \<noteq> CHR ''/''"
proof (induction ss rule: join_segments.induct)
  case (2 s)
  then have "s \<noteq> []" "CHR ''/'' \<notin> set s" by (simp_all add: plain_segment_def)
  then show ?case by (metis last_in_set join_segments.simps(2))
next
  case (3 s t ss)
  then show ?case by (auto simp: plain_segment_def)
qed simp

lemma path_normalize_root: "path_normalize ''/'' = ''/''"
  by code_simp

lemma path_normalize_resolved:
  "path_normalize (''/'' @ normalizeString p False) = ''/'' @ normalizeString p False"
proof -
  obtain ss where ss: "\<forall>s\<in>set ss. plain_segment s" and r: "normalizeString p False = join_segments ss"
    using normalizeString_segments by blast
  show ?thesis
  proof (cases "ss = []")
    case True
    with r show ?thesis by (simp add: path_normalize_root)
  next
    case False
    from join_segments_last[OF ss False] have l: "join_segments ss \<noteq> []" "last (join_segments ss) \<noteq> CHR ''/''"
      by simp_all
    have "normalizeString (CHR ''/'' # join_segments ss) False = join_segments ss"
      using resolve_segments_render[OF ss, of "[]"] by (simp add: normalizeString_resolve_segments resolve_segment_def)
    with l r show ?thesis by (simp add: path_normalize_def)
  qed
qed

lemma normalizeString_slash_segments:
  assumes "\<forall>s\<in>set ss. plain_segment s"
  shows "normalizeString (CHR ''/'' # join_segments ss) False = join_segments ss"
  using resolve_segments_render[OF assms, of "[]"]
  by (simp add: normalizeString_resolve_segments resolve_segment_def)

lemma path_normalize_absolute_segments:
  assumes "path_isAbsolute p"
  shows "path_normalize p =
     (if resolve_segments [] [] p = [] then ''/''
      else ''/'' @ join_segments (resolve_segments [] [] p) @ (if last p = CHR ''/'' then ''/'' else []))"
proof -
  have pl: "\<forall>s\<in>set (resolve_segments [] [] p). plain_segment s"
    by (rule resolve_segments_plain) simp_all
  then have "join_segments (resolve_segments [] [] p) = [] \<longleftrightarrow> resolve_segments [] [] p = []"
    by (intro join_segments_empty) (auto simp: plain_segment_def)
  with assms show ?thesis
    by (simp add: path_normalize_def path_isAbsolute_def normalizeString_resolve_segments Let_def)
qed

lemma path_normalize_idem_absolute:
  assumes "path_isAbsolute p"
  shows "path_normalize (path_normalize p) = path_normalize p"
proof -
  define ss where "ss = resolve_segments [] [] p"
  have pl: "\<forall>s\<in>set ss. plain_segment s"
    unfolding ss_def by (rule resolve_segments_plain) simp_all
  note n = path_normalize_absolute_segments[OF assms, folded ss_def]
  show ?thesis
  proof (cases "ss = []")
    case True
    with n show ?thesis by (simp add: path_normalize_root)
  next
    case False
    from join_segments_last[OF pl False]
    have l: "join_segments ss \<noteq> []" "last (join_segments ss) \<noteq> CHR ''/''" by simp_all
    have a: "normalizeString (CHR ''/'' # join_segments ss) False = join_segments ss"
      by (rule normalizeString_slash_segments[OF pl])
    have b: "normalizeString (CHR ''/'' # join_segments ss @ ''/'') False = join_segments ss"
      using normalizeString_trailing[of "CHR ''/'' # join_segments ss" False] a by simp
    show ?thesis
    proof (cases "last p = CHR ''/''")
      case True
      with n False have "path_normalize p = CHR ''/'' # join_segments ss @ ''/''" by simp
      with b l show ?thesis by (simp add: path_normalize_def)
    next
      case no: False
      with n False have "path_normalize p = CHR ''/'' # join_segments ss" by simp
      with a l show ?thesis by (simp add: path_normalize_def)
    qed
  qed
qed

lemma path_join_idem_absolute:
  assumes "path_isAbsolute h"
  shows "path_normalize (path_join [h, r]) = path_join [h, r]"
proof -
  from assms have "path_isAbsolute (h @ ''/'' @ r)"
    by (cases h) (simp_all add: path_isAbsolute_def)
  with assms have "path_isAbsolute (if r = [] then h else h @ ''/'' @ r)" by simp
  from path_normalize_idem_absolute[OF this]
  show ?thesis using assms by (cases "r = []") (simp_all add: path_join_def path_isAbsolute_def)
qed

text \<open>
  C7, as the code has it. Let \<^verbatim>\<open>boardPath\<close> have a character that is not white space.
  If it starts with \<^verbatim>\<open>~\<close> and the home directory is absolute, the result is \<^verbatim>\<open>path.join\<close>
  of the home directory and the rest (normalizing it again changes nothing), whatever the
  base path. If it is absolute, the result is its normalized form, whatever the base
  path. If it is relative (and does not start with \<^verbatim>\<open>~\<close>): with the base path \<^verbatim>\<open>null\<close> the
  call throws an \<^verbatim>\<open>Error\<close> that names the path; with a base path the result is the
  normalized \<^verbatim>\<open>path.resolve\<close> of the base path and the path. For an absolute base path
  that is the root followed by the segments kept of the base path and the path together,
  where \<^verbatim>\<open>..\<close> takes away segments of the base path too and stops at the root; it is
  \<^verbatim>\<open>path.join\<close> of the two without the trailing separator that \<^verbatim>\<open>path.join\<close> keeps.
\<close>

theorem resolveBoardPath_nonblank:
  assumes "\<not> (\<forall>c\<in>set boardPath. isWhiteSpace c)"
  shows "(startsWith boardPath ''~'' \<and> path_isAbsolute (homedir env) \<longrightarrow>
            resolveBoardPath env boardPath basePath =
              Inr (path_join [homedir env, drop 1 boardPath])) \<and>
         (path_isAbsolute boardPath \<longrightarrow>
            resolveBoardPath env boardPath basePath = Inr (path_normalize boardPath)) \<and>
         (\<not> startsWith boardPath ''~'' \<and> \<not> path_isAbsolute boardPath \<longrightarrow>
            resolveBoardPath env boardPath None = Inl (Error (relative_path_message boardPath)) \<and>
            (\<forall>b. resolveBoardPath env boardPath (Some b) =
                   Inr (path_normalize (path_resolve (cwd env) [b, boardPath])) \<and>
                 (path_isAbsolute b \<longrightarrow>
                    resolveBoardPath env boardPath (Some b) =
                      Inr (''/'' @ join_segments (resolve_segments [] [] (b @ ''/'' @ boardPath))) \<and>
                    path_join [b, boardPath] =
                      (if last boardPath = CHR ''/'' \<and>
                          resolve_segments [] [] (b @ ''/'' @ boardPath) \<noteq> []
                       then ''/'' @ join_segments (resolve_segments [] [] (b @ ''/'' @ boardPath)) @ ''/''
                       else ''/'' @ join_segments (resolve_segments [] [] (b @ ''/'' @ boardPath))))))"
proof -
  from assms have ne: "boardPath \<noteq> []" "trim boardPath \<noteq> []"
    by (auto simp: trim_empty_iff)
  show ?thesis
  proof (intro conjI impI allI)
    assume "startsWith boardPath ''~'' \<and> path_isAbsolute (homedir env)"
    then show "resolveBoardPath env boardPath basePath =
              Inr (path_join [homedir env, drop 1 boardPath])"
      using ne by (simp add: resolveBoardPath_def path_join_absolute path_join_idem_absolute)
  next
    assume "path_isAbsolute boardPath"
    then show "resolveBoardPath env boardPath basePath = Inr (path_normalize boardPath)"
      using ne by (simp add: resolveBoardPath_def startsWith_tilde_not_absolute)
  next
    assume rel: "\<not> startsWith boardPath ''~'' \<and> \<not> path_isAbsolute boardPath"
    then show "resolveBoardPath env boardPath None = Inl (Error (relative_path_message boardPath))"
      using ne by (simp add: resolveBoardPath_def)
    fix b
    from rel show g: "resolveBoardPath env boardPath (Some b) =
                   Inr (path_normalize (path_resolve (cwd env) [b, boardPath]))"
      using ne by (simp add: resolveBoardPath_def)
    assume b: "path_isAbsolute b"
    have pl: "\<forall>s\<in>set (resolve_segments [] [] (b @ ''/'' @ boardPath)). plain_segment s"
      by (rule resolve_segments_plain) simp_all
    from rel have r: "path_resolve (cwd env) [b, boardPath] =
                      ''/'' @ normalizeString (b @ ''/'' @ boardPath) False"
      using ne(1) b by (simp add: path_resolve_absolute_base)
    with g show "resolveBoardPath env boardPath (Some b) =
                      Inr (''/'' @ join_segments (resolve_segments [] [] (b @ ''/'' @ boardPath)))"
      by (simp only: path_normalize_resolved) (simp only: normalizeString_resolve_segments)
    have e: "join_segments (resolve_segments [] [] (b @ ''/'' @ boardPath)) = [] \<longleftrightarrow>
             resolve_segments [] [] (b @ ''/'' @ boardPath) = []"
      using pl by (intro join_segments_empty) (auto simp: plain_segment_def)
    show "path_join [b, boardPath] =
                      (if last boardPath = CHR ''/'' \<and>
                          resolve_segments [] [] (b @ ''/'' @ boardPath) \<noteq> []
                       then ''/'' @ join_segments (resolve_segments [] [] (b @ ''/'' @ boardPath)) @ ''/''
                       else ''/'' @ join_segments (resolve_segments [] [] (b @ ''/'' @ boardPath)))"
      using path_join_absolute_base[OF b ne(1)] e by (simp add: normalizeString_resolve_segments)
  qed
qed

theorem resolveBoardPath_nonblank_witness:
  "resolveBoardPath \<lparr>homedir = ''/home/u'', cwd = ''/cwd''\<rparr> ''../other-boards/main''
     (Some ''/home/user/projects/myproject'') = Inr ''/home/user/projects/other-boards/main'' \<and>
   resolveBoardPath \<lparr>homedir = ''/home/u'', cwd = ''/cwd''\<rparr> ''~/my-boards/main'' None =
     Inr ''/home/u/my-boards/main'' \<and>
   resolveBoardPath \<lparr>homedir = ''/home/u'', cwd = ''/cwd''\<rparr> ''/absolute/./path/../board'' None =
     Inr ''/absolute/board'' \<and>
   resolveBoardPath \<lparr>homedir = ''/home/u'', cwd = ''/cwd''\<rparr> ''relative/path'' None =
     Inl (Error (relative_path_message ''relative/path''))"
proof -
  have e1: "''/'' @ join_segments (resolve_segments [] []
              (''/home/user/projects/myproject'' @ ''/'' @ ''../other-boards/main'')) =
      ''/home/user/projects/other-boards/main''"
    by code_simp
  have e2: "path_join [''/home/u'', ''/my-boards/main''] = ''/home/u/my-boards/main''"
    by code_simp
  have e3: "path_normalize ''/absolute/./path/../board'' = ''/absolute/board''"
    by code_simp
  have h1: "\<not> (\<forall>c\<in>set ''../other-boards/main''. isWhiteSpace c)"
    and h2: "\<not> (\<forall>c\<in>set ''~/my-boards/main''. isWhiteSpace c)"
    and h3: "\<not> (\<forall>c\<in>set ''/absolute/./path/../board''. isWhiteSpace c)"
    and h4: "\<not> (\<forall>c\<in>set ''relative/path''. isWhiteSpace c)"
    by (simp_all add: isWhiteSpace_def)
  have c1: "\<not> startsWith ''../other-boards/main'' ''~'' \<and> \<not> path_isAbsolute ''../other-boards/main''"
    and c2: "startsWith ''~/my-boards/main'' ''~'' \<and>
             path_isAbsolute (homedir \<lparr>homedir = ''/home/u'', cwd = ''/cwd''\<rparr>)"
    and c3: "path_isAbsolute ''/absolute/./path/../board''"
    and c4: "\<not> startsWith ''relative/path'' ''~'' \<and> \<not> path_isAbsolute ''relative/path''"
    and c5: "path_isAbsolute ''/home/user/projects/myproject''"
    by (simp_all add: startsWith_def path_isAbsolute_def)
  from resolveBoardPath_nonblank[OF h1, of "\<lparr>homedir = ''/home/u'', cwd = ''/cwd''\<rparr>" None] c1 c5
  have "resolveBoardPath \<lparr>homedir = ''/home/u'', cwd = ''/cwd''\<rparr> ''../other-boards/main''
     (Some ''/home/user/projects/myproject'') =
     Inr (''/'' @ join_segments (resolve_segments [] []
              (''/home/user/projects/myproject'' @ ''/'' @ ''../other-boards/main'')))"
    by blast
  then have r1: "resolveBoardPath \<lparr>homedir = ''/home/u'', cwd = ''/cwd''\<rparr> ''../other-boards/main''
     (Some ''/home/user/projects/myproject'') = Inr ''/home/user/projects/other-boards/main''"
    by (simp only: e1)
  from resolveBoardPath_nonblank[OF h2, of "\<lparr>homedir = ''/home/u'', cwd = ''/cwd''\<rparr>" None] c2
  have "resolveBoardPath \<lparr>homedir = ''/home/u'', cwd = ''/cwd''\<rparr> ''~/my-boards/main'' None =
     Inr (path_join [homedir \<lparr>homedir = ''/home/u'', cwd = ''/cwd''\<rparr>,
            drop 1 ''~/my-boards/main''])"
    by blast
  then have r2: "resolveBoardPath \<lparr>homedir = ''/home/u'', cwd = ''/cwd''\<rparr> ''~/my-boards/main'' None =
     Inr ''/home/u/my-boards/main''"
    by (simp add: e2)
  from resolveBoardPath_nonblank[OF h3, of "\<lparr>homedir = ''/home/u'', cwd = ''/cwd''\<rparr>" None] c3
  have "resolveBoardPath \<lparr>homedir = ''/home/u'', cwd = ''/cwd''\<rparr> ''/absolute/./path/../board'' None =
     Inr (path_normalize ''/absolute/./path/../board'')"
    by blast
  then have r3: "resolveBoardPath \<lparr>homedir = ''/home/u'', cwd = ''/cwd''\<rparr> ''/absolute/./path/../board'' None =
     Inr ''/absolute/board''"
    by (simp only: e3)
  from resolveBoardPath_nonblank[OF h4, of "\<lparr>homedir = ''/home/u'', cwd = ''/cwd''\<rparr>" None] c4
  have r4: "resolveBoardPath \<lparr>homedir = ''/home/u'', cwd = ''/cwd''\<rparr> ''relative/path'' None =
     Inl (Error (relative_path_message ''relative/path''))"
    by blast
  from r1 r2 r3 r4 show ?thesis by blast
qed

text \<open>
  C7 as stated fails where the base path is relative: the working directory is put in
  front, and the result is not the normalized join of the base path and the path. With
  an absolute base path and a path that ends in a separator, the result differs from the
  normalized join by the trailing separator.
\<close>

theorem resolveBoardPath_join_counterexample:
  "resolveBoardPath \<lparr>homedir = ''/home/u'', cwd = ''/cwd''\<rparr> ''a'' (Some ''ws'') = Inr ''/cwd/ws/a'' \<and>
   path_normalize (path_join [''ws'', ''a'']) = ''ws/a'' \<and>
   resolveBoardPath \<lparr>homedir = ''/home/u'', cwd = ''/cwd''\<rparr> ''boards/'' (Some ''/ws'') = Inr ''/ws/boards'' \<and>
   path_normalize (path_join [''/ws'', ''boards/'']) = ''/ws/boards/''"
  by code_simp

section \<open>Properties of the global manager\<close>

lemma has_update [simp]: "has (AList.update k v al) k' \<longleftrightarrow> k' = k \<or> has al k'"
  by (simp add: has_def update_conv')

lemma has_delete [simp]: "has (AList.delete k al) k' \<longleftrightarrow> k' \<noteq> k \<and> has al k'"
  by (simp add: has_def delete_conv')

lemma adapters_update_adapter:
  "adapters (update_adapter r f m) = (case adapters m r of None \<Rightarrow> adapters m | Some a \<Rightarrow> (adapters m)(r \<mapsto> f a))"
  by (simp add: update_adapter_def split: option.splits)

lemma update_adapter_fields [simp]:
  "kanbnInstances (update_adapter r f m) = kanbnInstances m"
  "documentAdapters (update_adapter r f m) = documentAdapters m"
  "allocated (update_adapter r f m) = allocated m"
  by (simp_all add: update_adapter_def split: option.splits)

lemma run_cleanup_fields [simp]:
  "kanbnInstances (run_cleanup c m) = kanbnInstances m"
  "documentAdapters (run_cleanup c m) = documentAdapters m"
  "allocated (run_cleanup c m) = allocated m"
  by (cases c; simp)+

lemma acquire_kanbnInstances:
  "map_of (kanbnInstances (snd (getKanbnForDocument m u B g s))) =
     (map_of (kanbnInstances m))(B \<mapsto> fst (getKanbnForDocument m u B g s))"
  by (auto simp: getKanbnForDocument_def Let_def update_conv' split: option.splits)

lemma acquire_existing:
  "map_of (kanbnInstances m) B = Some k \<Longrightarrow> fst (getKanbnForDocument m u B g s) = k"
  by (auto simp: getKanbnForDocument_def Let_def update_conv' split: option.splits)

lemma acquire_registered: "registered (snd (getKanbnForDocument m u B g s)) B'
   \<longleftrightarrow> B' = B \<or> registered m B'"
  by (auto simp: getKanbnForDocument_def Let_def registered_def split: option.splits)

lemma release_keeps:
  "registered (cleanupDocument m u B') B \<Longrightarrow>
   map_of (kanbnInstances (cleanupDocument m u B')) B = map_of (kanbnInstances m) B"
  by (auto simp: cleanupDocument_def Let_def registered_def delete_conv' split: option.splits if_splits)

lemma step_keeps:
  assumes "map_of (kanbnInstances m) B = Some k" and "registered (apply_request r m) B"
  shows "map_of (kanbnInstances (apply_request r m)) B = Some k"
proof (cases r)
  case (Acquire u B' g s)
  with assms(1) show ?thesis
    by (auto simp: acquire_kanbnInstances acquire_existing)
next
  case (Release u B')
  with assms show ?thesis
    by (simp add: release_keeps)
qed

lemma stays_registered_last:
  "stays_registered B rs m \<Longrightarrow> map_of (kanbnInstances m) B = Some k \<Longrightarrow>
   map_of (kanbnInstances (run_requests rs m)) B = Some k"
proof (induction rs arbitrary: m)
  case Nil then show ?case by simp
next
  case (Cons r rs)
  from Cons.prems have reg: "registered (apply_request r m) B"
    by (cases rs) simp_all
  with Cons.prems have "map_of (kanbnInstances (apply_request r m)) B = Some k"
    by (simp add: step_keeps)
  with Cons show ?case by simp
qed

lemma one_per_board_new: "one_per_board new_manager"
  by (simp add: one_per_board_def new_manager_def)

lemma opb_kanbn:
  "one_per_board m \<Longrightarrow> map_of (kanbnInstances m) B = Some k \<Longrightarrow>
     kanbn_boardPath k = B \<and> kanbn_ref k < allocated m \<and>
     kanbn_fs k \<noteq> None \<and>
        map_option adapter (map_of (documentAdapters m) B) = kanbn_fs k"
  unfolding one_per_board_def by blast

lemma opb_info:
  "one_per_board m \<Longrightarrow> map_of (documentAdapters m) B = Some info \<Longrightarrow>
     adapter info < allocated m \<and> documentCallbacks_of info \<noteq> [] \<and>
     has (kanbnInstances m) B \<and>
     map_option (\<lambda>a. map fst (documentCallbacks a)) (adapters m (adapter info)) =
          Some (map fst (documentCallbacks_of info)) \<and>
     (\<forall>key c. map_of (documentCallbacks_of info) key = Some c \<longrightarrow>
           (\<exists>uri. c = RemoveDocumentCallbacks (adapter info) uri \<and> fsPath uri = key))"
  unfolding one_per_board_def by blast

lemma opb_kanbn_inj:
  "one_per_board m \<Longrightarrow> map_of (kanbnInstances m) B = Some k \<Longrightarrow>
   map_of (kanbnInstances m) B' = Some k' \<Longrightarrow> kanbn_ref k = kanbn_ref k' \<Longrightarrow> B = B'"
  unfolding one_per_board_def by blast

lemma opb_info_inj:
  "one_per_board m \<Longrightarrow> map_of (documentAdapters m) B = Some i \<Longrightarrow>
   map_of (documentAdapters m) B' = Some i' \<Longrightarrow> adapter i = adapter i' \<Longrightarrow> B = B'"
  unfolding one_per_board_def by blast

lemma opb_distinct:
  "one_per_board m \<Longrightarrow> distinct (map fst (kanbnInstances m)) \<and> distinct (map fst (documentAdapters m))"
  unfolding one_per_board_def by blast

lemma acquire_fresh:
  assumes "one_per_board m" "map_of (documentAdapters m) B = None"
  shows "getKanbnForDocument m u B g s =
    (\<lparr>kanbn_ref = allocated m + 1, kanbn_boardPath = B, kanbn_fs = Some (allocated m)\<rparr>,
     m\<lparr>adapters := (adapters m)(allocated m \<mapsto> new_multi_adapter u g s),
       allocated := allocated m + 2,
       documentAdapters := AList.update B \<lparr>adapter = allocated m,
              documentCallbacks_of = [(fsPath u, RemoveDocumentCallbacks (allocated m) u)]\<rparr>
            (documentAdapters m),
       kanbnInstances := AList.update B \<lparr>kanbn_ref = allocated m + 1, kanbn_boardPath = B, kanbn_fs = Some (allocated m)\<rparr> (kanbnInstances m)\<rparr>)"
proof -
  have "map_of (kanbnInstances m) B = None"
  proof (cases "map_of (kanbnInstances m) B")
    case (Some k)
    from opb_kanbn[OF assms(1) Some] assms(2) show ?thesis by auto
  qed simp
  with assms(2) show ?thesis
    by (simp add: getKanbnForDocument_def Let_def update_conv')
qed

lemma acquire_shared:
  assumes "one_per_board m" "map_of (documentAdapters m) B = Some info"
  shows "\<exists>k a. map_of (kanbnInstances m) B = Some k \<and> adapters m (adapter info) = Some a \<and>
    getKanbnForDocument m u B g s =
    (k, m\<lparr>adapters := (adapters m)(adapter info \<mapsto> addDocumentCallbacks a u g s),
       documentAdapters := AList.update B (info\<lparr>documentCallbacks_of :=
           AList.update (fsPath u) (RemoveDocumentCallbacks (adapter info) u) (documentCallbacks_of info)\<rparr>)
            (documentAdapters m)\<rparr>)"
proof -
  from opb_info[OF assms] obtain k where k: "map_of (kanbnInstances m) B = Some k"
    by (auto simp: has_def)
  from opb_info[OF assms] obtain a where a: "adapters m (adapter info) = Some a"
    by auto
  from k a assms(2) show ?thesis
    by (simp add: getKanbnForDocument_def Let_def update_conv' update_adapter_def)
qed

lemma one_per_boardI:
  assumes "distinct (map fst (kanbnInstances m))" "distinct (map fst (documentAdapters m))"
    and "\<And>B k. map_of (kanbnInstances m) B = Some k \<Longrightarrow>
        kanbn_boardPath k = B \<and> kanbn_ref k < allocated m \<and>
        kanbn_fs k \<noteq> None \<and>
        map_option adapter (map_of (documentAdapters m) B) = kanbn_fs k"
    and "\<And>B info. map_of (documentAdapters m) B = Some info \<Longrightarrow>
        adapter info < allocated m \<and> documentCallbacks_of info \<noteq> [] \<and>
        has (kanbnInstances m) B \<and>
        map_option (\<lambda>a. map fst (documentCallbacks a)) (adapters m (adapter info)) =
          Some (map fst (documentCallbacks_of info)) \<and>
        (\<forall>key c. map_of (documentCallbacks_of info) key = Some c \<longrightarrow>
           (\<exists>uri. c = RemoveDocumentCallbacks (adapter info) uri \<and> fsPath uri = key))"
    and "\<And>B B' k k'. map_of (kanbnInstances m) B = Some k \<Longrightarrow> map_of (kanbnInstances m) B' = Some k' \<Longrightarrow>
        kanbn_ref k = kanbn_ref k' \<Longrightarrow> B = B'"
    and "\<And>B B' i i'. map_of (documentAdapters m) B = Some i \<Longrightarrow> map_of (documentAdapters m) B' = Some i' \<Longrightarrow>
        adapter i = adapter i' \<Longrightarrow> B = B'"
  shows "one_per_board m"
  unfolding one_per_board_def using assms by blast

lemma acquire_fresh_one_per_board:
  assumes inv: "one_per_board m" and None: "map_of (documentAdapters m) B = None"
  shows "one_per_board (snd (getKanbnForDocument m u B g s))"
proof -
  define k0 where "k0 = \<lparr>kanbn_ref = allocated m + 1, kanbn_boardPath = B, kanbn_fs = Some (allocated m)\<rparr>"
  define i0 where "i0 = \<lparr>adapter = allocated m,
              documentCallbacks_of = [(fsPath u, RemoveDocumentCallbacks (allocated m) u)]\<rparr>"
  define m' where "m' = snd (getKanbnForDocument m u B g s)"
  have kI: "kanbnInstances m' = AList.update B k0 (kanbnInstances m)"
    and dA: "documentAdapters m' = AList.update B i0 (documentAdapters m)"
    and ad: "adapters m' = (adapters m)(allocated m \<mapsto> new_multi_adapter u g s)"
    and al: "allocated m' = allocated m + 2"
    unfolding m'_def k0_def i0_def acquire_fresh[OF inv None] by simp_all
  have mk: "map_of (kanbnInstances m') = (map_of (kanbnInstances m))(B \<mapsto> k0)"
    by (simp add: kI update_conv')
  have md: "map_of (documentAdapters m') = (map_of (documentAdapters m))(B \<mapsto> i0)"
    by (simp add: dA update_conv')
  have "one_per_board m'"
  proof (rule one_per_boardI)
    show "distinct (map fst (kanbnInstances m'))"
      using opb_distinct[OF inv] by (simp add: kI distinct_update)
    show "distinct (map fst (documentAdapters m'))"
      using opb_distinct[OF inv] by (simp add: dA distinct_update)
  next
    fix B' k assume "map_of (kanbnInstances m') B' = Some k"
    then consider "B' = B" "k = k0" | "B' \<noteq> B" "map_of (kanbnInstances m) B' = Some k"
      by (auto simp: mk split: if_splits)
    then show "kanbn_boardPath k = B' \<and> kanbn_ref k < allocated m' \<and>
        kanbn_fs k \<noteq> None \<and>
        map_option adapter (map_of (documentAdapters m') B') = kanbn_fs k"
    proof cases
      case 1 then show ?thesis by (simp add: k0_def i0_def al md)
    next
      case 2 with opb_kanbn[OF inv 2(2)] show ?thesis by (simp add: al md)
    qed
  next
    fix B' info assume "map_of (documentAdapters m') B' = Some info"
    then consider "B' = B" "info = i0" | "B' \<noteq> B" "map_of (documentAdapters m) B' = Some info"
      by (auto simp: md split: if_splits)
    then show "adapter info < allocated m' \<and> documentCallbacks_of info \<noteq> [] \<and>
        has (kanbnInstances m') B' \<and>
        map_option (\<lambda>a. map fst (documentCallbacks a)) (adapters m' (adapter info)) =
          Some (map fst (documentCallbacks_of info)) \<and>
        (\<forall>key c. map_of (documentCallbacks_of info) key = Some c \<longrightarrow>
           (\<exists>uri. c = RemoveDocumentCallbacks (adapter info) uri \<and> fsPath uri = key))"
    proof cases
      case 1 then show ?thesis by (simp add: i0_def al ad has_def mk new_multi_adapter_def)
    next
      case 2 with opb_info[OF inv 2(2)] show ?thesis by (auto simp: al ad has_def mk)
    qed
  next
    fix B1 B2 k k'
    assume a: "map_of (kanbnInstances m') B1 = Some k" "map_of (kanbnInstances m') B2 = Some k'"
       "kanbn_ref k = kanbn_ref k'"
    show "B1 = B2"
    proof (cases "B1 = B"; cases "B2 = B")
      assume "B1 = B" "B2 \<noteq> B"
      with a opb_kanbn[OF inv, of B2 k'] show ?thesis by (auto simp: mk k0_def)
    next
      assume "B1 \<noteq> B" "B2 = B"
      with a opb_kanbn[OF inv, of B1 k] show ?thesis by (auto simp: mk k0_def)
    next
      assume "B1 \<noteq> B" "B2 \<noteq> B"
      with a opb_kanbn_inj[OF inv, of B1 k B2 k'] show ?thesis by (simp add: mk)
    qed simp
  next
    fix B1 B2 i i'
    assume a: "map_of (documentAdapters m') B1 = Some i" "map_of (documentAdapters m') B2 = Some i'"
       "adapter i = adapter i'"
    show "B1 = B2"
    proof (cases "B1 = B"; cases "B2 = B")
      assume "B1 = B" "B2 \<noteq> B"
      with a opb_info[OF inv, of B2 i'] show ?thesis by (auto simp: md i0_def)
    next
      assume "B1 \<noteq> B" "B2 = B"
      with a opb_info[OF inv, of B1 i] show ?thesis by (auto simp: md i0_def)
    next
      assume "B1 \<noteq> B" "B2 \<noteq> B"
      with a opb_info_inj[OF inv, of B1 i B2 i'] show ?thesis by (simp add: md)
    qed simp
  qed
  then show ?thesis by (simp add: m'_def)
qed


lemma update_not_Nil: "AList.update k v al \<noteq> []"
  by (cases al) simp_all

lemma keys_update_cong:
  "map fst al = map fst bl \<Longrightarrow> map fst (AList.update k v al) = map fst (AList.update k w bl)"
  by (simp add: update_keys)

lemma keys_delete_cong:
  "map fst al = map fst bl \<Longrightarrow> map fst (AList.delete k al) = map fst (AList.delete k bl)"
  by (simp add: delete_keys)

lemma one_per_board_replace:
  assumes inv: "one_per_board m" and Some: "map_of (documentAdapters m) B = Some info"
    and ai: "adapter i0 = adapter info"
    and ne: "documentCallbacks_of i0 \<noteq> []"
    and keys: "map fst (documentCallbacks a') = map fst (documentCallbacks_of i0)"
    and wf: "\<And>key c. map_of (documentCallbacks_of i0) key = Some c \<Longrightarrow>
           \<exists>uri. c = RemoveDocumentCallbacks (adapter i0) uri \<and> fsPath uri = key"
  shows "one_per_board (m\<lparr>adapters := (adapters m)(adapter info \<mapsto> a'),
       documentAdapters := AList.update B i0 (documentAdapters m)\<rparr>)"
    (is "one_per_board ?m'")
proof (rule one_per_boardI)
  note md = update_conv'
  show "distinct (map fst (kanbnInstances ?m'))"
    using opb_distinct[OF inv] by simp
  show "distinct (map fst (documentAdapters ?m'))"
    using opb_distinct[OF inv] by (simp add: distinct_update)
  show "kanbn_boardPath k = B' \<and> kanbn_ref k < allocated ?m' \<and>
        kanbn_fs k \<noteq> None \<and>
        map_option adapter (map_of (documentAdapters ?m') B') = kanbn_fs k"
    if "map_of (kanbnInstances ?m') B' = Some k" for B' k
  proof -
    from that have k: "map_of (kanbnInstances m) B' = Some k" by simp
    from opb_kanbn[OF inv k] Some show ?thesis by (auto simp: md ai)
  qed
  show "adapter i < allocated ?m' \<and> documentCallbacks_of i \<noteq> [] \<and>
        has (kanbnInstances ?m') B' \<and>
        map_option (\<lambda>a. map fst (documentCallbacks a)) (adapters ?m' (adapter i)) =
          Some (map fst (documentCallbacks_of i)) \<and>
        (\<forall>key c. map_of (documentCallbacks_of i) key = Some c \<longrightarrow>
           (\<exists>uri. c = RemoveDocumentCallbacks (adapter i) uri \<and> fsPath uri = key))"
    if "map_of (documentAdapters ?m') B' = Some i" for B' i
  proof -
    from that consider "B' = B" "i = i0" | "B' \<noteq> B" "map_of (documentAdapters m) B' = Some i"
      by (auto simp: md split: if_splits)
    then show ?thesis
    proof cases
      case 1
      with opb_info[OF inv Some] ai ne keys wf show ?thesis by simp
    next
      case 2
      from opb_info_inj[OF inv 2(2) Some] 2(1) have "adapter i \<noteq> adapter info" by blast
      with opb_info[OF inv 2(2)] show ?thesis by simp
    qed
  qed
  show "B1 = B2"
    if "map_of (kanbnInstances ?m') B1 = Some k" "map_of (kanbnInstances ?m') B2 = Some k'"
       "kanbn_ref k = kanbn_ref k'" for B1 B2 k k'
    using that opb_kanbn_inj[OF inv, of B1 k B2 k'] by simp
  show "B1 = B2"
    if a: "map_of (documentAdapters ?m') B1 = Some i" "map_of (documentAdapters ?m') B2 = Some i'"
       "adapter i = adapter i'" for B1 B2 i i'
  proof (cases "B1 = B"; cases "B2 = B")
    assume c: "B1 = B" "B2 \<noteq> B"
    with a have "i = i0" "map_of (documentAdapters m) B2 = Some i'" by (simp_all add: md)
    with a(3) ai have "map_of (documentAdapters m) B2 = Some i'" "adapter info = adapter i'" by simp_all
    from opb_info_inj[OF inv Some this] c show ?thesis by simp
  next
    assume c: "B1 \<noteq> B" "B2 = B"
    with a have "i' = i0" "map_of (documentAdapters m) B1 = Some i" by (simp_all add: md)
    with a(3) ai have "map_of (documentAdapters m) B1 = Some i" "adapter info = adapter i" by simp_all
    from opb_info_inj[OF inv Some this] c show ?thesis by simp
  next
    assume "B1 \<noteq> B" "B2 \<noteq> B"
    with a opb_info_inj[OF inv, of B1 i B2 i'] show ?thesis by (simp add: md)
  qed simp
qed

lemma one_per_board_remove:
  assumes inv: "one_per_board m" and Some: "map_of (documentAdapters m) B = Some info"
  shows "one_per_board (m\<lparr>adapters := (adapters m)(adapter info \<mapsto> a'),
           documentAdapters := AList.delete B (documentAdapters m),
           kanbnInstances := AList.delete B (kanbnInstances m)\<rparr>)"
    (is "one_per_board ?m'")
proof (rule one_per_boardI)
  note md = delete_conv'
  note mk = delete_conv'
  show "distinct (map fst (kanbnInstances ?m'))"
    using opb_distinct[OF inv] by (simp add: distinct_delete)
  show "distinct (map fst (documentAdapters ?m'))"
    using opb_distinct[OF inv] by (simp add: distinct_delete)
  show "kanbn_boardPath k = B' \<and> kanbn_ref k < allocated ?m' \<and>
        kanbn_fs k \<noteq> None \<and>
        map_option adapter (map_of (documentAdapters ?m') B') = kanbn_fs k"
    if "map_of (kanbnInstances ?m') B' = Some k" for B' k
  proof -
    from that have k: "B' \<noteq> B" "map_of (kanbnInstances m) B' = Some k"
      by (auto simp: mk split: if_splits)
    from opb_kanbn[OF inv k(2)] k(1) show ?thesis by (simp add: md)
  qed
  show "adapter i < allocated ?m' \<and> documentCallbacks_of i \<noteq> [] \<and>
        has (kanbnInstances ?m') B' \<and>
        map_option (\<lambda>a. map fst (documentCallbacks a)) (adapters ?m' (adapter i)) =
          Some (map fst (documentCallbacks_of i)) \<and>
        (\<forall>key c. map_of (documentCallbacks_of i) key = Some c \<longrightarrow>
           (\<exists>uri. c = RemoveDocumentCallbacks (adapter i) uri \<and> fsPath uri = key))"
    if "map_of (documentAdapters ?m') B' = Some i" for B' i
  proof -
    from that have 2: "B' \<noteq> B" "map_of (documentAdapters m) B' = Some i"
      by (auto simp: md split: if_splits)
    from opb_info_inj[OF inv 2(2) Some] 2(1) have "adapter i \<noteq> adapter info" by blast
    with opb_info[OF inv 2(2)] 2(1) show ?thesis by (simp add: has_def mk)
  qed
  show "B1 = B2"
    if "map_of (kanbnInstances ?m') B1 = Some k" "map_of (kanbnInstances ?m') B2 = Some k'"
       "kanbn_ref k = kanbn_ref k'" for B1 B2 k k'
    using that opb_kanbn_inj[OF inv, of B1 k B2 k'] by (simp add: mk split: if_splits)
  show "B1 = B2"
    if "map_of (documentAdapters ?m') B1 = Some i" "map_of (documentAdapters ?m') B2 = Some i'"
       "adapter i = adapter i'" for B1 B2 i i'
    using that opb_info_inj[OF inv, of B1 i B2 i'] by (simp add: md split: if_splits)
qed

lemma acquire_shared_one_per_board:
  assumes inv: "one_per_board m" and Some: "map_of (documentAdapters m) B = Some info"
  shows "one_per_board (snd (getKanbnForDocument m u B g s))"
proof -
  define i0 where "i0 = info\<lparr>documentCallbacks_of :=
           AList.update (fsPath u) (RemoveDocumentCallbacks (adapter info) u) (documentCallbacks_of info)\<rparr>"
  from acquire_shared[OF inv Some, of u g s] obtain k0 a where
    a: "adapters m (adapter info) = Some a"
    and eq: "getKanbnForDocument m u B g s =
    (k0, m\<lparr>adapters := (adapters m)(adapter info \<mapsto> addDocumentCallbacks a u g s),
       documentAdapters := AList.update B i0 (documentAdapters m)\<rparr>)"
    unfolding i0_def by blast
  note I = opb_info[OF inv Some]
  from I a have keys: "map fst (documentCallbacks a) = map fst (documentCallbacks_of info)"
    by simp
  have "one_per_board (m\<lparr>adapters := (adapters m)(adapter info \<mapsto> addDocumentCallbacks a u g s),
       documentAdapters := AList.update B i0 (documentAdapters m)\<rparr>)"
  proof (rule one_per_board_replace[OF inv Some])
    show "adapter i0 = adapter info"
      by (simp add: i0_def)
    show "documentCallbacks_of i0 \<noteq> []"
      by (simp add: i0_def update_not_Nil)
    show "map fst (documentCallbacks (addDocumentCallbacks a u g s)) = map fst (documentCallbacks_of i0)"
      by (simp add: addDocumentCallbacks_def i0_def keys_update_cong[OF keys])
    show "\<exists>uri. c = RemoveDocumentCallbacks (adapter i0) uri \<and> fsPath uri = key"
      if "map_of (documentCallbacks_of i0) key = Some c" for key c
      using that I by (auto simp: i0_def update_conv' split: if_splits)
  qed
  then show ?thesis by (simp add: eq)
qed

lemma acquire_one_per_board:
  "one_per_board m \<Longrightarrow> one_per_board (snd (getKanbnForDocument m u B g s))"
  by (cases "map_of (documentAdapters m) B")
     (simp_all add: acquire_fresh_one_per_board acquire_shared_one_per_board)

lemma release_unregistered:
  "map_of (documentAdapters m) B = None \<Longrightarrow> cleanupDocument m u B = m"
  by (simp add: cleanupDocument_def)

lemma release_cases:
  assumes inv: "one_per_board m" and Some: "map_of (documentAdapters m) B = Some info"
  obtains
    (absent) "map_of (documentCallbacks_of info) (fsPath u) = None"
      "cleanupDocument m u B = m\<lparr>documentAdapters := AList.update B info (documentAdapters m)\<rparr>"
  | (last) a uri where "adapters m (adapter info) = Some a" "fsPath uri = fsPath u"
      "AList.delete (fsPath u) (documentCallbacks_of info) = []"
      "cleanupDocument m u B =
         m\<lparr>adapters := (adapters m)(adapter info \<mapsto> removeDocumentCallbacks a uri),
           documentAdapters := AList.delete B (documentAdapters m),
           kanbnInstances := AList.delete B (kanbnInstances m)\<rparr>"
  | (other) a uri where "adapters m (adapter info) = Some a" "fsPath uri = fsPath u"
      "AList.delete (fsPath u) (documentCallbacks_of info) \<noteq> []"
      "cleanupDocument m u B =
         m\<lparr>adapters := (adapters m)(adapter info \<mapsto> removeDocumentCallbacks a uri),
           documentAdapters := AList.update B
              (info\<lparr>documentCallbacks_of := AList.delete (fsPath u) (documentCallbacks_of info)\<rparr>)
              (documentAdapters m)\<rparr>"
proof (cases "map_of (documentCallbacks_of info) (fsPath u)")
  case None
  from opb_info[OF inv Some] have "documentCallbacks_of info \<noteq> []" by simp
  with None Some have "cleanupDocument m u B = m\<lparr>documentAdapters := AList.update B info (documentAdapters m)\<rparr>"
    by (simp add: cleanupDocument_def Let_def)
  with None show ?thesis by (rule absent)
next
  case (Some c)
  from opb_info[OF inv \<open>map_of (documentAdapters m) B = Some info\<close>] Some
  obtain uri where c: "c = RemoveDocumentCallbacks (adapter info) uri" and uri: "fsPath uri = fsPath u"
    by blast
  from opb_info[OF inv \<open>map_of (documentAdapters m) B = Some info\<close>]
  obtain a where a: "adapters m (adapter info) = Some a" by auto
  show ?thesis
  proof (cases "AList.delete (fsPath u) (documentCallbacks_of info) = []")
    case True
    with Some c a \<open>map_of (documentAdapters m) B = Some info\<close>
    have "cleanupDocument m u B =
         m\<lparr>adapters := (adapters m)(adapter info \<mapsto> removeDocumentCallbacks a uri),
           documentAdapters := AList.delete B (documentAdapters m),
           kanbnInstances := AList.delete B (kanbnInstances m)\<rparr>"
      by (simp add: cleanupDocument_def Let_def update_adapter_def)
    with a uri True show ?thesis by (rule last)
  next
    case False
    with Some c a \<open>map_of (documentAdapters m) B = Some info\<close>
    have "cleanupDocument m u B =
         m\<lparr>adapters := (adapters m)(adapter info \<mapsto> removeDocumentCallbacks a uri),
           documentAdapters := AList.update B
              (info\<lparr>documentCallbacks_of := AList.delete (fsPath u) (documentCallbacks_of info)\<rparr>)
              (documentAdapters m)\<rparr>"
      by (simp add: cleanupDocument_def Let_def update_adapter_def)
    with a uri False show ?thesis by (rule other)
  qed
qed


lemma release_one_per_board:
  assumes inv: "one_per_board m"
  shows "one_per_board (cleanupDocument m u B)"
proof (cases "map_of (documentAdapters m) B")
  case None
  with inv show ?thesis by (simp add: release_unregistered)
next
  case (Some info)
  note I = opb_info[OF inv Some]
  from inv Some show ?thesis
  proof (cases rule: release_cases[where u = u])
    case absent
    from I obtain a where a: "adapters m (adapter info) = Some a" by auto
    have "one_per_board (m\<lparr>adapters := (adapters m)(adapter info \<mapsto> a),
       documentAdapters := AList.update B info (documentAdapters m)\<rparr>)"
      using I a by (intro one_per_board_replace[OF inv Some]) auto
    moreover have "(adapters m)(adapter info \<mapsto> a) = adapters m"
      using a by (simp add: fun_upd_idem)
    ultimately show ?thesis by (simp add: absent(2))
  next
    case (last a uri)
    then show ?thesis by (simp add: one_per_board_remove[OF inv Some])
  next
    case (other a uri)
    from I other(1) have keys: "map fst (documentCallbacks a) = map fst (documentCallbacks_of info)" by simp
    show ?thesis
      unfolding other(4)
    proof (rule one_per_board_replace[OF inv Some])
      show "documentCallbacks_of (info\<lparr>documentCallbacks_of := AList.delete (fsPath u) (documentCallbacks_of info)\<rparr>) \<noteq> []"
        using other(3) by simp
      show "map fst (documentCallbacks (removeDocumentCallbacks a uri)) =
         map fst (documentCallbacks_of (info\<lparr>documentCallbacks_of := AList.delete (fsPath u) (documentCallbacks_of info)\<rparr>))"
        using other(2) by (simp add: removeDocumentCallbacks_def keys_delete_cong[OF keys])
      show "\<exists>uri. c = RemoveDocumentCallbacks (adapter (info\<lparr>documentCallbacks_of := AList.delete (fsPath u) (documentCallbacks_of info)\<rparr>)) uri \<and> fsPath uri = key"
        if "map_of (documentCallbacks_of (info\<lparr>documentCallbacks_of := AList.delete (fsPath u) (documentCallbacks_of info)\<rparr>)) key = Some c" for key c
        using that I by (auto simp: delete_conv' split: if_splits)
    qed simp
  qed
qed

lemma apply_request_one_per_board:
  "one_per_board m \<Longrightarrow> one_per_board (apply_request r m)"
  by (cases r) (simp_all add: acquire_one_per_board release_one_per_board)

lemma run_requests_one_per_board:
  "one_per_board m \<Longrightarrow> one_per_board (run_requests rs m)"
  by (induction rs arbitrary: m) (simp_all add: apply_request_one_per_board)





lemma acquire_other_board:
  "B \<noteq> B' \<Longrightarrow> map_of (documentAdapters (snd (getKanbnForDocument m u B' g s))) B = map_of (documentAdapters m) B"
  by (auto simp: getKanbnForDocument_def Let_def update_conv' split: option.splits)

lemma release_other_board:
  "B \<noteq> B' \<Longrightarrow> map_of (documentAdapters (cleanupDocument m u B')) B = map_of (documentAdapters m) B"
  by (auto simp: cleanupDocument_def Let_def update_conv' delete_conv' split: option.splits)

lemma run_requests_append: "run_requests (xs @ ys) m = run_requests ys (run_requests xs m)"
  by (induction xs arbitrary: m) simp_all

lemma set_keys_update: "fst ` set (AList.update k v al) = insert k (fst ` set al)"
  by (induction al) auto

lemma set_keys_delete: "fst ` set (AList.delete k al) = fst ` set al - {k}"
  by (induction al) auto

lemma map_of_None_keys: "map_of al k = None \<Longrightarrow> fst ` set al - {k} = fst ` set al"
  by (auto simp: map_of_eq_None_iff)

lemma delete_Nil_set: "AList.delete k al = [] \<Longrightarrow> fst ` set al - {k} = {}"
  using set_keys_delete[of k al] by simp

lemma registration_keys_acquire:
  assumes inv: "one_per_board m"
  shows "registration_keys (snd (getKanbnForDocument m u B' g s)) B =
         documents_step B (registration_keys m B) (Acquire u B' g s)"
proof (cases "B' = B")
  case False
  then show ?thesis by (simp add: registration_keys_def acquire_other_board)
next
  case True
  show ?thesis
  proof (cases "map_of (documentAdapters m) B")
    case None
    from acquire_fresh[OF inv None, of u g s] None True show ?thesis
      by (simp add: registration_keys_def update_conv')
  next
    case (Some info)
    from acquire_shared[OF inv Some, of u g s] obtain k a where
      "getKanbnForDocument m u B g s =
        (k, m\<lparr>adapters := (adapters m)(adapter info \<mapsto> addDocumentCallbacks a u g s),
           documentAdapters := AList.update B (info\<lparr>documentCallbacks_of :=
             AList.update (fsPath u) (RemoveDocumentCallbacks (adapter info) u) (documentCallbacks_of info)\<rparr>)
              (documentAdapters m)\<rparr>)"
      by blast
    with Some True show ?thesis
      by (simp add: registration_keys_def update_conv' set_keys_update)
  qed
qed

lemma registration_keys_release:
  assumes inv: "one_per_board m"
  shows "registration_keys (cleanupDocument m u B') B =
         documents_step B (registration_keys m B) (Release u B')"
proof (cases "B' = B")
  case False
  then show ?thesis by (simp add: registration_keys_def release_other_board)
next
  case True
  show ?thesis
  proof (cases "map_of (documentAdapters m) B")
    case None
    with True show ?thesis by (simp add: registration_keys_def cleanupDocument_def)
  next
    case (Some info)
    from inv Some show ?thesis
    proof (cases rule: release_cases[where u = u])
      case absent
      with Some True show ?thesis
        by (simp add: registration_keys_def update_conv' map_of_None_keys)
    next
      case (last a uri)
      with Some True show ?thesis
        by (simp add: registration_keys_def delete_conv' delete_Nil_set)
    next
      case (other a uri)
      with Some True show ?thesis
        by (simp add: registration_keys_def update_conv' set_keys_delete)
    qed
  qed
qed

lemma registration_keys_step:
  "one_per_board m \<Longrightarrow>
   registration_keys (apply_request r m) B = documents_step B (registration_keys m B) r"
  by (cases r) (simp_all add: registration_keys_acquire registration_keys_release del: documents_step.simps)

lemma registration_keys_run:
  "one_per_board m \<Longrightarrow>
   registration_keys (run_requests rs m) B = foldl (documents_step B) (registration_keys m B) rs"
proof (induction rs arbitrary: m)
  case (Cons r rs)
  from Cons.prems have "one_per_board (apply_request r m)" by (rule apply_request_one_per_board)
  from Cons.IH[OF this] Cons.prems show ?case by (simp add: registration_keys_step)
qed simp

lemma registration_keys_reached:
  "registration_keys (run_requests rs new_manager) B = registered_documents B rs"
  using registration_keys_run[OF one_per_board_new, of rs B]
  by (simp add: registered_documents_def registration_keys_def new_manager_def)

lemma registered_keys:
  "one_per_board m \<Longrightarrow> registered m B \<longleftrightarrow> registration_keys m B \<noteq> {}"
  by (auto simp: registered_def has_def registration_keys_def dest: opb_info split: option.splits)

lemma remains_stays_registered:
  "one_per_board m \<Longrightarrow> remains_registered B (registration_keys m B) rs \<Longrightarrow> stays_registered B rs m"
proof (induction rs arbitrary: m)
  case Nil
  then show ?case by (simp add: registered_keys)
next
  case (Cons r rs)
  from Cons.prems(1) have inv: "one_per_board (apply_request r m)" by (rule apply_request_one_per_board)
  from Cons.prems have "remains_registered B (registration_keys (apply_request r m) B) rs"
    by (simp add: registration_keys_step)
  from Cons.IH[OF inv this] Cons.prems show ?case by (simp add: registered_keys)
qed


text \<open>
  C1, as the code has it. From any state the manager can reach, let a call of
  \<^verbatim>\<open>getKanbnForDocument\<close> for a board return an instance. After any further requests
  throughout which at least one document remains registered for the board (by the calls
  made: registered by \<^verbatim>\<open>getKanbnForDocument\<close> and not released by \<^verbatim>\<open>cleanupDocument\<close>
  since), a call for that board, for any document and any callbacks, returns that very
  instance (the same reference, board path and adapter). The registry then still has one
  \<^verbatim>\<open>Kanbn\<close> instance and one adapter per board path, the instance bound to that adapter,
  and the documents it holds for the board are those that the calls registered.
\<close>

theorem shared_instance_per_board:
  assumes "m = run_requests history new_manager"
    and "getKanbnForDocument m uri boardPath getter setter = (kanbn, m1)"
    and "remains_registered boardPath
           (registered_documents boardPath (history @ [Acquire uri boardPath getter setter])) requests"
  shows "fst (getKanbnForDocument (run_requests requests m1) uri' boardPath getter' setter') = kanbn \<and>
         one_per_board (run_requests requests m1) \<and>
         registration_keys (run_requests requests m1) boardPath =
           registered_documents boardPath (history @ [Acquire uri boardPath getter setter] @ requests)"
proof -
  have m1: "m1 = run_requests (history @ [Acquire uri boardPath getter setter]) new_manager"
    using assms(1,2) by (simp add: run_requests_append)
  have inv1: "one_per_board m1"
    unfolding m1 by (simp add: run_requests_one_per_board one_per_board_new)
  then have inv: "one_per_board (run_requests requests m1)"
    by (simp add: run_requests_one_per_board)
  have keys1: "registration_keys m1 boardPath =
      registered_documents boardPath (history @ [Acquire uri boardPath getter setter])"
    unfolding m1 by (rule registration_keys_reached)
  with assms(3) inv1 have stays: "stays_registered boardPath requests m1"
    by (simp add: remains_stays_registered)
  have "map_of (kanbnInstances (snd (getKanbnForDocument m uri boardPath getter setter))) boardPath =
          Some (fst (getKanbnForDocument m uri boardPath getter setter))"
    by (simp add: acquire_kanbnInstances)
  with assms(2) have "map_of (kanbnInstances m1) boardPath = Some kanbn" by simp
  with stays have "map_of (kanbnInstances (run_requests requests m1)) boardPath = Some kanbn"
    by (rule stays_registered_last)
  then have same: "fst (getKanbnForDocument (run_requests requests m1) uri' boardPath getter' setter') = kanbn"
    by (rule acquire_existing)
  have "run_requests requests m1 =
      run_requests (history @ [Acquire uri boardPath getter setter] @ requests) new_manager"
    unfolding m1 by (simp add: run_requests_append)
  then have keys: "registration_keys (run_requests requests m1) boardPath =
           registered_documents boardPath (history @ [Acquire uri boardPath getter setter] @ requests)"
    by (simp add: registration_keys_reached)
  from same inv keys show ?thesis by simp
qed



theorem shared_instance_per_board_witness:
  "fst (getKanbnForDocument
          (run_requests [Acquire \<lparr>fsPath = ''/ws/.kanbn/tasks/b.md''\<rparr> ''/ws'' (\<lambda>w. w) (\<lambda>c w. c),
                         Release \<lparr>fsPath = ''/ws/.kanbn/tasks/a.md''\<rparr> ''/ws'']
             (snd (getKanbnForDocument new_manager \<lparr>fsPath = ''/ws/.kanbn/tasks/a.md''\<rparr> ''/ws''
                     (\<lambda>w::string. w) (\<lambda>c w. c))))
          \<lparr>fsPath = ''/ws/.kanbn/tasks/c.md''\<rparr> ''/ws'' (\<lambda>w. w) (\<lambda>c w. c)) =
       \<lparr>kanbn_ref = 1, kanbn_boardPath = ''/ws'', kanbn_fs = Some 0\<rparr> \<and>
   registration_keys
     (run_requests [Acquire \<lparr>fsPath = ''/ws/.kanbn/tasks/b.md''\<rparr> ''/ws'' (\<lambda>w. w) (\<lambda>c w. c),
                    Release \<lparr>fsPath = ''/ws/.kanbn/tasks/a.md''\<rparr> ''/ws'']
        (snd (getKanbnForDocument new_manager \<lparr>fsPath = ''/ws/.kanbn/tasks/a.md''\<rparr> ''/ws''
                (\<lambda>w::string. w) (\<lambda>c w. c)))) ''/ws'' = {''/ws/.kanbn/tasks/b.md''}"
proof -
  define a where "a = \<lparr>fsPath = ''/ws/.kanbn/tasks/a.md''\<rparr>"
  define b where "b = \<lparr>fsPath = ''/ws/.kanbn/tasks/b.md''\<rparr>"
  define g where "g = (\<lambda>w::string. w)"
  define s where "s = (\<lambda>(c::string) w::string. c)"
  define m1 where "m1 = snd (getKanbnForDocument new_manager a ''/ws'' g s)"
  have h1: "new_manager = run_requests [] (new_manager :: string KanbnGlobalManager)" by simp
  have h2: "getKanbnForDocument new_manager a ''/ws'' g s =
              (\<lparr>kanbn_ref = 1, kanbn_boardPath = ''/ws'', kanbn_fs = Some 0\<rparr>, m1)"
    by (simp add: m1_def getKanbnForDocument_def new_manager_def Let_def)
  have h3: "remains_registered ''/ws'' (registered_documents ''/ws'' ([] @ [Acquire a ''/ws'' g s]))
              [Acquire b ''/ws'' g s, Release a ''/ws'']"
    by (simp add: registered_documents_def a_def b_def)
  have e: "registered_documents ''/ws'' ([] @ [Acquire a ''/ws'' g s] @ [Acquire b ''/ws'' g s, Release a ''/ws'']) =
             {''/ws/.kanbn/tasks/b.md''}"
    by (auto simp: registered_documents_def a_def b_def)
  from shared_instance_per_board[OF h1 h2 h3] e show ?thesis
    unfolding m1_def a_def b_def g_def s_def by simp
qed

text \<open>
  The documents and the registry together: task documents that were initialized hold the
  one instance of the registry; until then each holds the instance its constructor made;
  disposing of the last task document of a board empties the registry.
\<close>

lemma path_dirname_examples:
  "path_dirname ''/ws/.kanbn/tasks/a.md'' = ''/ws/.kanbn/tasks'' \<and>
   path_dirname ''/ws/.kanbn'' = ''/ws'' \<and>
   path_dirname ''/ws'' = ''/'' \<and>
   path_dirname ''/'' = ''/'' \<and>
   path_dirname ''/ws/.kanbn/'' = ''/ws'' \<and>
   path_dirname ''a.md'' = ''.'' \<and>
   path_dirname [] = ''.''"
  by code_simp

lemma task_documents_share_instance:
  "map (\<lambda>k. (kanbn_ref k, kanbn_fs k))
     (kanbn_instances
        (initializeForWebview (\<lambda>b. []) (\<lambda>s. []) ''/ws/.kanbn/tasks/b.md''
          (initializeForWebview (\<lambda>b. []) (\<lambda>s. []) ''/ws/.kanbn/tasks/a.md''
            (new_document TaskDocument \<lparr>fsPath = ''/ws/.kanbn/tasks/b.md''\<rparr>
              (new_document TaskDocument \<lparr>fsPath = ''/ws/.kanbn/tasks/a.md''\<rparr> new_extension))))
        ''/ws'') =
   [(3, Some 2)]"
  by code_simp

lemma task_documents_before_initializeForWebview:
  "map (\<lambda>k. (kanbn_ref k, kanbn_fs k))
     (kanbn_instances
        (new_document TaskDocument \<lparr>fsPath = ''/ws/.kanbn/tasks/b.md''\<rparr>
          (new_document TaskDocument \<lparr>fsPath = ''/ws/.kanbn/tasks/a.md''\<rparr> new_extension))
        ''/ws'') =
   [(0, None), (1, None)]"
  by code_simp

lemma dispose_releases:
  "getStats (globalManager
     (dispose ''/ws/.kanbn/tasks/a.md''
        (initializeForWebview (\<lambda>b. []) (\<lambda>s. []) ''/ws/.kanbn/tasks/a.md''
           (new_document TaskDocument \<lparr>fsPath = ''/ws/.kanbn/tasks/a.md''\<rparr> new_extension)))) = (0, 0, 0)"
  by code_simp

text \<open>
  C1 as stated fails outside the registry, for the documents construct instances of their
  own. With the board document of a board and one of its task documents open and
  initialized, two \<^verbatim>\<open>Kanbn\<close> instances are in use for the board, on two adapters: the
  instance and the adapter that the board document made for itself (references 2 and 1),
  and those of the registry (references 5 and 4).
\<close>

theorem two_instances_counterexample:
  "map (\<lambda>k. (kanbn_ref k, kanbn_fs k))
     (kanbn_instances
        (initializeForWebview (\<lambda>b. []) (\<lambda>s. []) ''/ws/.kanbn/tasks/a.md''
          (new_document TaskDocument \<lparr>fsPath = ''/ws/.kanbn/tasks/a.md''\<rparr>
            (initializeForWebview (\<lambda>b. []) (\<lambda>s. []) ''/ws/.kanbn/index.md''
              (new_document BoardDocument \<lparr>fsPath = ''/ws/.kanbn/index.md''\<rparr> new_extension))))
        ''/ws'') =
   [(2, Some 1), (5, Some 4)]"
  by code_simp





section \<open>Properties of the editor documents\<close>

lemma makeEdit_resolved:
  "editCallback ed = (Inr u, ed') \<Longrightarrow>
   makeEdit lbl editCallback ed =
     (Inr (), ed'\<lparr>doc := fire \<lparr>label = lbl, oldDocumentData = documentData (doc ed),
                                newDocumentData = documentData (doc ed')\<rparr> (doc ed')\<rparr>)"
  by (simp add: makeEdit_def Let_def)

lemma makeEdit_rejected:
  "editCallback ed = (Inl e, ed') \<Longrightarrow> makeEdit lbl editCallback ed = (Inl e, ed')"
  by (simp add: makeEdit_def Let_def)

lemma documentData_call_onUndoRedo [simp]:
  "documentData (call_onUndoRedo dc) = documentData dc"
  by (simp add: call_onUndoRedo_def)

lemma move_callback_caught:
  "moveTask ed = (Inl e, ed1) \<Longrightarrow> instanceofError e \<Longrightarrow>
   move_callback moveTask ed = (Inr (), ed1\<lparr>shownErrors := shownErrors ed1 @ [message e]\<rparr>)"
  by (simp add: move_callback_def)

text \<open>
  C5. Let the edit callback resolve, taking the editor from \<open>ed\<close> to \<open>ed'\<close>, and let \<open>ev\<close>
  be the change event that \<^verbatim>\<open>makeEdit\<close> fired last. Then \<^verbatim>\<open>makeEdit\<close> resolves with the
  bytes the callback left; \<open>undo\<close> of \<open>ev\<close>, on whatever the document holds by then, sets
  the bytes to those of \<open>ed\<close>, the content just before the callback ran; \<open>redo\<close> after
  that \<open>undo\<close> sets them to those of \<open>ed'\<close>, the content just after it completed.
\<close>

theorem makeEdit_undo_redo:
  assumes "editCallback ed = (Inr (), ed')"
    and "ev = last (changeEvents (doc (snd (makeEdit lbl editCallback ed))))"
  shows "fst (makeEdit lbl editCallback ed) = Inr () \<and>
         documentData (doc (snd (makeEdit lbl editCallback ed))) = documentData (doc ed') \<and>
         label ev = lbl \<and>
         documentData (undo ev dc) = documentData (doc ed) \<and>
         documentData (redo ev (undo ev dc)) = documentData (doc ed')"
  using assms by (simp add: makeEdit_resolved fire_def undo_def redo_def)

theorem makeEdit_undo_redo_witness:
  "documentData
     (undo (last (changeEvents (doc (snd (makeEdit ''Move task a''
               (\<lambda>ed. (Inr (), ed\<lparr>doc := (doc ed)\<lparr>documentData := [3, 4]\<rparr>\<rparr>))
               \<lparr>doc = \<lparr>documentData = [1, 2], changeEvents = [], onUndoRedo = True, refreshes = 0\<rparr>,
                 shownErrors = []\<rparr>)))))
        \<lparr>documentData = [3, 4], changeEvents = [], onUndoRedo = True, refreshes = 0\<rparr>) = [1, 2]"
  using makeEdit_undo_redo
    [of "\<lambda>ed. (Inr (), ed\<lparr>doc := (doc ed)\<lparr>documentData := [3, 4]\<rparr>\<rparr>)"
        "\<lparr>doc = \<lparr>documentData = [1, 2], changeEvents = [], onUndoRedo = True, refreshes = 0\<rparr>,
          shownErrors = []\<rparr>"
        "\<lparr>doc = \<lparr>documentData = [3, 4], changeEvents = [], onUndoRedo = True, refreshes = 0\<rparr>,
          shownErrors = []\<rparr>"
        "last (changeEvents (doc (snd (makeEdit ''Move task a''
               (\<lambda>ed. (Inr (), ed\<lparr>doc := (doc ed)\<lparr>documentData := [3, 4]\<rparr>\<rparr>))
               \<lparr>doc = \<lparr>documentData = [1, 2], changeEvents = [], onUndoRedo = True, refreshes = 0\<rparr>,
                 shownErrors = []\<rparr>))))"
        "''Move task a''"
        "\<lparr>documentData = [3, 4], changeEvents = [], onUndoRedo = True, refreshes = 0\<rparr>"]
  by simp

text \<open>
  C10. When the edit callback resolves, \<^verbatim>\<open>makeEdit\<close> resolves and adds exactly one change
  event, with the label and the bytes before and after the callback, to those fired up
  to the end of the callback; when the bytes are unchanged, \<open>undo\<close> and \<open>redo\<close> of that
  event both set the bytes to that same content. The callback of the \<^verbatim>\<open>kanbn.move\<close>
  handler is such a callback when \<^verbatim>\<open>moveTask\<close> throws an \<^verbatim>\<open>Error\<close>: the message is shown, the
  callback resolves, and the event is fired all the same.
\<close>

theorem makeEdit_fires_once:
  "(editCallback ed = (Inr (), ed') \<longrightarrow>
      fst (makeEdit lbl editCallback ed) = Inr () \<and>
      changeEvents (doc (snd (makeEdit lbl editCallback ed))) =
        changeEvents (doc ed') @
          [\<lparr>label = lbl, oldDocumentData = documentData (doc ed),
            newDocumentData = documentData (doc ed')\<rparr>] \<and>
      (documentData (doc ed') = documentData (doc ed) \<longrightarrow>
         documentData (undo (last (changeEvents (doc (snd (makeEdit lbl editCallback ed))))) dc) =
           documentData (doc ed) \<and>
         documentData (redo (last (changeEvents (doc (snd (makeEdit lbl editCallback ed))))) dc) =
           documentData (doc ed))) \<and>
   (moveTask ed = (Inl e, ed1) \<and> instanceofError e \<longrightarrow>
      fst (makeEdit lbl (move_callback moveTask) ed) = Inr () \<and>
      changeEvents (doc (snd (makeEdit lbl (move_callback moveTask) ed))) =
        changeEvents (doc ed1) @
          [\<lparr>label = lbl, oldDocumentData = documentData (doc ed),
            newDocumentData = documentData (doc ed1)\<rparr>] \<and>
      shownErrors (snd (makeEdit lbl (move_callback moveTask) ed)) =
        shownErrors ed1 @ [message e])"
proof (intro conjI impI)
  assume "editCallback ed = (Inr (), ed')"
  then have cb: "makeEdit lbl editCallback ed =
     (Inr (), ed'\<lparr>doc := fire \<lparr>label = lbl, oldDocumentData = documentData (doc ed),
                                newDocumentData = documentData (doc ed')\<rparr> (doc ed')\<rparr>)"
    by (rule makeEdit_resolved)
  show "fst (makeEdit lbl editCallback ed) = Inr ()"
    by (simp add: cb)
  show "changeEvents (doc (snd (makeEdit lbl editCallback ed))) =
        changeEvents (doc ed') @
          [\<lparr>label = lbl, oldDocumentData = documentData (doc ed),
            newDocumentData = documentData (doc ed')\<rparr>]"
    by (simp add: cb fire_def)
  assume same: "documentData (doc ed') = documentData (doc ed)"
  show "documentData (undo (last (changeEvents (doc (snd (makeEdit lbl editCallback ed))))) dc) =
           documentData (doc ed)"
    by (simp add: cb fire_def undo_def)
  show "documentData (redo (last (changeEvents (doc (snd (makeEdit lbl editCallback ed))))) dc) =
           documentData (doc ed)"
    using same by (simp add: cb fire_def redo_def)
next
  assume "moveTask ed = (Inl e, ed1) \<and> instanceofError e"
  then have "move_callback moveTask ed =
      (Inr (), ed1\<lparr>shownErrors := shownErrors ed1 @ [message e]\<rparr>)"
    by (simp add: move_callback_caught)
  then have mv: "makeEdit lbl (move_callback moveTask) ed =
     (Inr (), ed1\<lparr>shownErrors := shownErrors ed1 @ [message e],
                   doc := fire \<lparr>label = lbl, oldDocumentData = documentData (doc ed),
                                newDocumentData = documentData (doc ed1)\<rparr> (doc ed1)\<rparr>)"
    by (simp add: makeEdit_resolved)
  show "fst (makeEdit lbl (move_callback moveTask) ed) = Inr ()"
    by (simp add: mv)
  show "changeEvents (doc (snd (makeEdit lbl (move_callback moveTask) ed))) =
        changeEvents (doc ed1) @
          [\<lparr>label = lbl, oldDocumentData = documentData (doc ed),
            newDocumentData = documentData (doc ed1)\<rparr>]"
    by (simp add: mv fire_def)
  show "shownErrors (snd (makeEdit lbl (move_callback moveTask) ed)) =
        shownErrors ed1 @ [message e]"
    by (simp add: mv)
qed

theorem makeEdit_fires_once_witness:
  "changeEvents (doc (snd (makeEdit ''Move task a''
       (move_callback (\<lambda>ed. (Inl (Error ''No task a''), ed)))
       \<lparr>doc = \<lparr>documentData = [1, 2], changeEvents = [], onUndoRedo = True, refreshes = 0\<rparr>,
         shownErrors = []\<rparr>))) =
   [\<lparr>label = ''Move task a'', oldDocumentData = [1, 2], newDocumentData = [1, 2]\<rparr>] \<and>
   changeEvents (doc (snd (makeEdit ''Sort column''
       (\<lambda>ed. (Inr (), ed))
       \<lparr>doc = \<lparr>documentData = [1, 2], changeEvents = [], onUndoRedo = True, refreshes = 0\<rparr>,
         shownErrors = []\<rparr>))) =
   [\<lparr>label = ''Sort column'', oldDocumentData = [1, 2], newDocumentData = [1, 2]\<rparr>]"
  using makeEdit_fires_once
    [of "\<lambda>ed. (Inr (), ed)"
        "\<lparr>doc = \<lparr>documentData = [1, 2], changeEvents = [], onUndoRedo = True, refreshes = 0\<rparr>,
          shownErrors = []\<rparr>"
        "\<lparr>doc = \<lparr>documentData = [1, 2], changeEvents = [], onUndoRedo = True, refreshes = 0\<rparr>,
          shownErrors = []\<rparr>"
        "''Sort column''" "\<lparr>documentData = [], changeEvents = [], onUndoRedo = True, refreshes = 0\<rparr>"
        "\<lambda>ed. (Inl (Error ''No task a''), ed)" "Error ''No task a''"
        "\<lparr>doc = \<lparr>documentData = [1, 2], changeEvents = [], onUndoRedo = True, refreshes = 0\<rparr>,
          shownErrors = []\<rparr>"]
    makeEdit_fires_once
    [of "\<lambda>ed. (Inr (), ed)"
        "\<lparr>doc = \<lparr>documentData = [1, 2], changeEvents = [], onUndoRedo = True, refreshes = 0\<rparr>,
          shownErrors = []\<rparr>"
        "\<lparr>doc = \<lparr>documentData = [1, 2], changeEvents = [], onUndoRedo = True, refreshes = 0\<rparr>,
          shownErrors = []\<rparr>"
        "''Move task a''" "\<lparr>documentData = [], changeEvents = [], onUndoRedo = True, refreshes = 0\<rparr>"
        "\<lambda>ed. (Inl (Error ''No task a''), ed)" "Error ''No task a''"
        "\<lparr>doc = \<lparr>documentData = [1, 2], changeEvents = [], onUndoRedo = True, refreshes = 0\<rparr>,
          shownErrors = []\<rparr>"]
  by simp

section \<open>Properties of the adapters\<close>

subsection \<open>Reads and writes of live documents\<close>

text \<open>
  The adapter for several documents keeps the callbacks of a document under
  \<^verbatim>\<open>documentUri.fsPath\<close> as it is, and looks a path up under \<^verbatim>\<open>normalizePath(filePath)\<close>.
  Where the two agree the document is found, and reads and writes go to its callbacks
  without a call on the disk; where they differ the document is not found under its own
  path. No result of \<^verbatim>\<open>normalizePath\<close> has a backslash, so a path with a backslash
  always differs. The adapters bound to one document compare \<^verbatim>\<open>normalizePath\<close> of both.
\<close>

lemma replace_backslashes_free: "CHR 0x5C \<notin> set (replace_backslashes s)"
  by (auto simp: replace_backslashes_def)

lemma normalizePath_backslash: "CHR 0x5C \<in> set p \<Longrightarrow> normalizePath p \<noteq> p"
  using replace_backslashes_free[of "path_normalize p"] by (auto simp: normalizePath_def)

lemma readFile_multi_hit:
  "map_of (documentCallbacks a) (normalizePath p) = Some cb \<Longrightarrow>
   readFile_multi a p w d = (Inr (getContent cb w), d) \<and> access_multi a p mode d = (Inr (), d)"
  by (simp add: readFile_multi_def access_multi_def has_def)

lemma readFile_multi_registered:
  "normalizePath (fsPath uri) = fsPath uri \<Longrightarrow>
   readFile_multi (addDocumentCallbacks a uri getter setter) (fsPath uri) w d = (Inr (getter w), d) \<and>
   access_multi (addDocumentCallbacks a uri getter setter) (fsPath uri) mode d = (Inr (), d)"
  by (simp add: readFile_multi_def access_multi_def has_def addDocumentCallbacks_def update_conv')

lemma readFile_multi_unnormalized:
  "normalizePath (fsPath uri) \<noteq> fsPath uri \<Longrightarrow>
   readFile_multi (new_multi_adapter uri getter setter) (fsPath uri) w d =
     readFile_fallback (new_multi_adapter uri getter setter) (fsPath uri) d \<and>
   access_multi (new_multi_adapter uri getter setter) (fsPath uri) mode d =
     access_fallback (new_multi_adapter uri getter setter) (fsPath uri) mode d"
  by (simp add: readFile_multi_def access_multi_def has_def new_multi_adapter_def)

lemma writeFile_multi_hit:
  "map_of (documentCallbacks a) (normalizePath p) = Some cb \<Longrightarrow>
   writeFile_multi a p data w d = (Inr (), setContent cb data w, d)"
  by (simp add: writeFile_multi_def)

lemma writeFile_multi_miss:
  "map_of (documentCallbacks a) (normalizePath p) = None \<Longrightarrow>
   writeFile_multi a p data w d = (r, w', d') \<Longrightarrow>
   w' = w \<and> (r, d') = fs_writeFile p data d \<and> (\<forall>q. q \<noteq> p \<longrightarrow> entries d' q = entries d q)"
  by (auto simp: writeFile_multi_def fs_writeFile_def fs_log_def split: prod.splits if_splits option.splits)

lemma writeFile_main:
  "normalizePath p = normalizePath (fsPath (documentUri a)) \<Longrightarrow>
   writeFile a p data w d = (Inr (), setDocumentContent a data w, d)"
  by (simp add: writeFile_def isMainIndexFile_def)

lemma writeFile_other:
  "normalizePath p \<noteq> normalizePath (fsPath (documentUri a)) \<Longrightarrow>
   writeFile a p data w d = (r, w', d') \<Longrightarrow>
   w' = w \<and> (r, d') = fs_writeFile p data d \<and> (\<forall>q. q \<noteq> p \<longrightarrow> entries d' q = entries d q)"
  by (auto simp: writeFile_def isMainIndexFile_def fs_writeFile_def fs_log_def split: prod.splits if_splits option.splits)

lemma document_setter_frame:
  "v \<noteq> u \<Longrightarrow> document_setter encode u content w v = w v"
  by (simp add: document_setter_def)

lemma document_getter_setter:
  "document_getter decode u (document_setter encode u content w) = decode (encode content)"
  by (simp add: document_getter_def document_setter_def)

text \<open>
  C3 fails on the code for a document whose \<^verbatim>\<open>fsPath\<close> is not its own normalized form.
  The adapter is constructed for a document at \<^verbatim>\<open>/ws/.kanbn/tasks/a\b.md\<close> whose buffer holds
  "live": the path has a callback pair, yet \<^verbatim>\<open>readFile\<close> of that path makes a read call on
  the disk and returns the content "stale" found there, and \<^verbatim>\<open>access\<close> of that path throws
  when the disk has no such file.
\<close>

theorem readFile_multi_backslash_path:
  "has (documentCallbacks
          (new_multi_adapter \<lparr>fsPath = ''/ws/.kanbn/tasks/a'' @ [CHR 0x5C] @ ''b.md''\<rparr>
             (\<lambda>w::string. w) (\<lambda>c w. c)))
       (''/ws/.kanbn/tasks/a'' @ [CHR 0x5C] @ ''b.md'') \<and>
   readFile_multi
     (new_multi_adapter \<lparr>fsPath = ''/ws/.kanbn/tasks/a'' @ [CHR 0x5C] @ ''b.md''\<rparr>
        (\<lambda>w::string. w) (\<lambda>c w. c))
     (''/ws/.kanbn/tasks/a'' @ [CHR 0x5C] @ ''b.md'') ''live''
     \<lparr>entries = [''/ws'' \<mapsto> Directory, ''/ws/.kanbn'' \<mapsto> Directory,
                 ''/ws/.kanbn/tasks'' \<mapsto> Directory,
                 ''/ws/.kanbn/tasks/a'' @ [CHR 0x5C] @ ''b.md'' \<mapsto> File ''stale''],
      denied = {}, calls = []\<rparr> =
   (Inr ''stale'',
    \<lparr>entries = [''/ws'' \<mapsto> Directory, ''/ws/.kanbn'' \<mapsto> Directory,
                ''/ws/.kanbn/tasks'' \<mapsto> Directory,
                ''/ws/.kanbn/tasks/a'' @ [CHR 0x5C] @ ''b.md'' \<mapsto> File ''stale''],
     denied = {}, calls = [ReadFile (''/ws/.kanbn/tasks/a'' @ [CHR 0x5C] @ ''b.md'')]\<rparr>) \<and>
   fst (access_multi
     (new_multi_adapter \<lparr>fsPath = ''/ws/.kanbn/tasks/a'' @ [CHR 0x5C] @ ''b.md''\<rparr>
        (\<lambda>w::string. w) (\<lambda>c w. c))
     (''/ws/.kanbn/tasks/a'' @ [CHR 0x5C] @ ''b.md'') None
     \<lparr>entries = Map.empty, denied = {}, calls = []\<rparr>) =
   Inl (Error (access_message (''/ws/.kanbn/tasks/a'' @ [CHR 0x5C] @ ''b.md'')))"
proof -
  define P where "P = ''/ws/.kanbn/tasks/a'' @ [CHR 0x5C] @ ''b.md''"
  have n: "normalizePath P = ''/ws/.kanbn/tasks/a/b.md''"
    unfolding P_def by code_simp
  have ne: "''/ws/.kanbn/tasks/a/b.md'' \<noteq> P"
    by (simp add: P_def)
  have ps: "parents P = [''/ws'', ''/ws/.kanbn'', ''/ws/.kanbn/tasks'']"
    unfolding P_def by code_simp
  have nr: "P \<noteq> ''/''" "P \<noteq> ''/ws''" "P \<noteq> ''/ws/.kanbn''" "P \<noteq> ''/ws/.kanbn/tasks''"
    by (simp_all add: P_def)
  show ?thesis
    unfolding P_def[symmetric]
    by (simp add: n ne nr nr[symmetric] ps stat_def has_def new_multi_adapter_def readFile_multi_def
          readFile_fallback_def fs_readFile_def fs_log_def access_multi_def access_fallback_def
          fs_access_def)
qed

text \<open>
  C4 fails on the code for the same document: \<^verbatim>\<open>writeFile\<close> of its path leaves the buffer
  as it is (the setter is not called) and writes the data to the disk.
\<close>

theorem writeFile_multi_backslash_path:
  "has (documentCallbacks
          (new_multi_adapter \<lparr>fsPath = ''/ws/.kanbn/tasks/a'' @ [CHR 0x5C] @ ''b.md''\<rparr>
             (\<lambda>w::string. w) (\<lambda>c w. c)))
       (''/ws/.kanbn/tasks/a'' @ [CHR 0x5C] @ ''b.md'') \<and>
   writeFile_multi
     (new_multi_adapter \<lparr>fsPath = ''/ws/.kanbn/tasks/a'' @ [CHR 0x5C] @ ''b.md''\<rparr>
        (\<lambda>w::string. w) (\<lambda>c w. c))
     (''/ws/.kanbn/tasks/a'' @ [CHR 0x5C] @ ''b.md'') ''new'' ''live''
     \<lparr>entries = [''/ws'' \<mapsto> Directory, ''/ws/.kanbn'' \<mapsto> Directory,
                 ''/ws/.kanbn/tasks'' \<mapsto> Directory],
      denied = {}, calls = []\<rparr> =
   (Inr (), ''live'',
    \<lparr>entries = [''/ws'' \<mapsto> Directory, ''/ws/.kanbn'' \<mapsto> Directory,
                ''/ws/.kanbn/tasks'' \<mapsto> Directory,
                ''/ws/.kanbn/tasks/a'' @ [CHR 0x5C] @ ''b.md'' \<mapsto> File ''new''],
     denied = {},
     calls = [WriteFile (''/ws/.kanbn/tasks/a'' @ [CHR 0x5C] @ ''b.md'') ''new'']\<rparr>)"
proof -
  define P where "P = ''/ws/.kanbn/tasks/a'' @ [CHR 0x5C] @ ''b.md''"
  have n: "normalizePath P = ''/ws/.kanbn/tasks/a/b.md''"
    unfolding P_def by code_simp
  have ne: "''/ws/.kanbn/tasks/a/b.md'' \<noteq> P"
    by (simp add: P_def)
  have ps: "parents P = [''/ws'', ''/ws/.kanbn'', ''/ws/.kanbn/tasks'']"
    unfolding P_def by code_simp
  have nr: "P \<noteq> ''/''" "P \<noteq> ''/ws''" "P \<noteq> ''/ws/.kanbn''" "P \<noteq> ''/ws/.kanbn/tasks''"
    by (simp_all add: P_def)
  show ?thesis
    unfolding P_def[symmetric]
    by (simp add: n ne nr nr[symmetric] ps stat_def has_def new_multi_adapter_def writeFile_multi_def
          fs_writeFile_def fs_log_def)
qed

subsection \<open>Creating directories and deleting files\<close>

lemma parents_from_shorter:
  "q \<in> set (parents_from before cs) \<Longrightarrow> length q < length before + length cs"
proof (induction cs arbitrary: before)
  case (Cons c cs)
  then show ?case by (fastforce split: if_splits)
qed simp

lemma parents_proper: "p \<notin> set (parents p)"
  using parents_from_shorter[of p "[]" p] by (auto simp: parents_def)

lemma stat_update_other: "q \<noteq> p \<Longrightarrow> stat (es(p := v)) q = stat es q"
  by (simp add: stat_def)

lemma stat_update_Directory: "stat (es(p \<mapsto> Directory)) p = Some Directory"
  by (simp add: stat_def)

lemma fs_walk_update: "q \<notin> set qs \<Longrightarrow> fs_walk (es(q := v)) p qs = fs_walk es p qs"
  by (induction qs) (auto simp: stat_update_other split: option.splits fs_entry.splits)

lemma fs_walk_parents_update: "fs_walk (es(p := v)) p (parents p) = fs_walk es p (parents p)"
  by (simp add: fs_walk_update parents_proper)

lemma fs_walk_None: "fs_walk es p qs = None \<longleftrightarrow> (\<forall>q\<in>set qs. stat es q = Some Directory)"
  by (induction qs) (auto split: option.splits fs_entry.splits)

lemma fs_walk_code:
  "fs_walk es p qs = Some e \<Longrightarrow> e = SystemError ''ENOENT'' p \<or> e = SystemError ''ENOTDIR'' p"
  by (induction qs) (auto split: option.splits fs_entry.splits)

lemma mkdir_all_keeps:
  "stat es q = Some Directory \<Longrightarrow> stat (snd (mkdir_all p den qs es)) q = Some Directory"
proof (induction qs arbitrary: es)
  case (Cons x qs)
  show ?case
  proof (cases "stat es x")
    case None
    with Cons.prems have "x \<noteq> q" by auto
    with Cons.prems have "stat (es(x \<mapsto> Directory)) q = Some Directory"
      by (simp add: stat_update_other)
    from Cons.IH[OF this] None Cons.prems show ?thesis by (simp del: fun_upd_apply)
  next
    case (Some entry)
    with Cons show ?thesis by (cases entry) simp_all
  qed
qed simp

lemma mkdir_all_error:
  "mkdir_all p den qs es = (Inl e, es') \<Longrightarrow> \<exists>c. e = SystemError c p"
  by (induction qs arbitrary: es) (auto split: option.splits fs_entry.splits if_splits)

lemma mkdir_all_again:
  "(\<forall>q\<in>set qs. stat es q = Some Directory) \<Longrightarrow> mkdir_all p den qs es = (Inr (), es)"
  by (induction qs) simp_all

lemma mkdir_all_stable:
  "mkdir_all p den qs es = (r, es') \<Longrightarrow> r = Inr () \<or> r = Inl (SystemError ''EEXIST'' p) \<Longrightarrow>
   mkdir_all p den qs es' = (r, es')"
proof (induction qs arbitrary: es)
  case Nil
  then show ?case by simp
next
  case (Cons x qs)
  show ?case
  proof (cases "stat es x")
    case None
    show ?thesis
    proof (cases "x \<in> den")
      case True
      with None Cons.prems show ?thesis by auto
    next
      case False
      with None Cons.prems have rest: "mkdir_all p den qs (es(x \<mapsto> Directory)) = (r, es')" by simp
      from mkdir_all_keeps[OF stat_update_Directory, of p den qs es x] rest
      have "stat es' x = Some Directory" by simp
      with Cons.IH[OF rest Cons.prems(2)] show ?thesis by simp
    qed
  next
    case (Some entry)
    show ?thesis
    proof (cases entry)
      case (File content)
      with Some Cons.prems show ?thesis by (auto split: if_splits)
    next
      case Directory
      with Some Cons.prems have rest: "mkdir_all p den qs es = (r, es')" by simp
      from mkdir_all_keeps[of es x p den qs] Some Directory rest
      have "stat es' x = Some Directory" by simp
      with Cons.IH[OF rest Cons.prems(2)] show ?thesis by simp
    qed
  qed
qed

lemma mkdir_swallows:
  "mkdir p r d =
     (case fst (fs_mkdir p r d) of
        Inl e \<Rightarrow> if code_of e = Some ''EEXIST'' then Inr () else Inl e
      | Inr u \<Rightarrow> Inr (),
      snd (fs_mkdir p r d))"
  by (auto simp: mkdir_def split: prod.splits sum.splits)

lemma unlink_swallows:
  "unlink p d =
     (case fst (fs_unlink p d) of
        Inl e \<Rightarrow> if code_of e = Some ''ENOENT'' then Inr () else Inl e
      | Inr u \<Rightarrow> Inr (),
      snd (fs_unlink p d))"
  by (auto simp: unlink_def split: prod.splits sum.splits)

lemma mkdir_existing:
  assumes "stat (entries d) p = Some Directory" and "fs_walk (entries d) p (parents p) = None"
  shows "fst (mkdir p r d) = Inr () \<and> entries (snd (mkdir p r d)) = entries d"
proof (cases r)
  case True
  from assms have "\<forall>q\<in>set (parents p @ [p]). stat (entries d) q = Some Directory"
    by (simp add: fs_walk_None)
  then have "mkdir_all p (denied d) (parents p @ [p]) (entries d) = (Inr (), entries d)"
    by (rule mkdir_all_again)
  with True show ?thesis by (simp add: mkdir_swallows fs_mkdir_def fs_log_def)
next
  case False
  with assms show ?thesis by (simp add: mkdir_swallows fs_mkdir_def fs_log_def)
qed

lemma mkdir_twice:
  assumes "fst (mkdir p r d) = Inr ()"
  shows "fst (mkdir p r (snd (mkdir p r d))) = Inr () \<and>
         entries (snd (mkdir p r (snd (mkdir p r d)))) = entries (snd (mkdir p r d))"
proof (cases r)
  case True
  obtain res es where all: "mkdir_all p (denied d) (parents p @ [p]) (entries d) = (res, es)"
    by (cases "mkdir_all p (denied d) (parents p @ [p]) (entries d)")
  with True have first: "fs_mkdir p r d = (res, fs_log (Mkdir p r) (d\<lparr>entries := es\<rparr>))"
    by (simp add: fs_mkdir_def)
  have ok: "res = Inr () \<or> res = Inl (SystemError ''EEXIST'' p)"
  proof (cases res)
    case (Inl e)
    with assms first have "code_of e = Some ''EEXIST''"
      by (simp add: mkdir_swallows split: if_splits)
    moreover from all Inl have "\<exists>c. e = SystemError c p"
      by (auto dest: mkdir_all_error)
    ultimately show ?thesis using Inl by auto
  qed simp
  from mkdir_all_stable[OF all ok]
  have "fs_mkdir p r (fs_log (Mkdir p r) (d\<lparr>entries := es\<rparr>)) =
          (res, fs_log (Mkdir p r) (fs_log (Mkdir p r) (d\<lparr>entries := es\<rparr>)))"
    using True by (simp add: fs_mkdir_def fs_log_def)
  with first assms show ?thesis
    by (simp add: mkdir_swallows fs_log_def)
next
  case False
  show ?thesis
  proof (cases "fs_walk (entries d) p (parents p)")
    case (Some e)
    from fs_walk_code[OF Some] Some False assms show ?thesis
      by (auto simp: mkdir_swallows fs_mkdir_def)
  next
    case None
    show ?thesis
    proof (cases "stat (entries d) p")
      case (Some entry)
      with None False show ?thesis
        by (simp add: mkdir_swallows fs_mkdir_def fs_log_def)
    next
      case absent: None
      with None False assms have ok: "p \<notin> denied d"
        by (auto simp: mkdir_swallows fs_mkdir_def)
      with None absent False
      have first: "snd (mkdir p r d) = fs_log (Mkdir p r) (d\<lparr>entries := (entries d)(p \<mapsto> Directory)\<rparr>)"
        by (simp add: mkdir_swallows fs_mkdir_def)
      show ?thesis
        unfolding first using None False
        by (simp add: mkdir_swallows fs_mkdir_def fs_log_def fs_walk_parents_update
              stat_update_Directory)
    qed
  qed
qed

lemma unlink_missing:
  assumes "stat (entries d) p = None" and "fs_walk (entries d) p (parents p) = None"
  shows "fst (unlink p d) = Inr () \<and> entries (snd (unlink p d)) = entries d"
  using assms by (simp add: unlink_swallows fs_unlink_def fs_log_def)

lemma unlink_missing_parent:
  assumes "fs_walk (entries d) p (parents p) = Some (SystemError ''ENOENT'' p)"
  shows "fst (unlink p d) = Inr () \<and> entries (snd (unlink p d)) = entries d"
  using assms by (simp add: unlink_swallows fs_unlink_def fs_log_def)

lemma unlink_below_file:
  assumes "fs_walk (entries d) p (parents p) = Some (SystemError ''ENOTDIR'' p)"
  shows "unlink p d = (Inl (SystemError ''ENOTDIR'' p), fs_log (Unlink p) d)"
  using assms by (simp add: unlink_swallows fs_unlink_def)

lemma unlink_twice:
  assumes "fst (unlink p d) = Inr ()"
  shows "fst (unlink p (snd (unlink p d))) = Inr () \<and>
         entries (snd (unlink p (snd (unlink p d)))) = entries (snd (unlink p d))"
proof (cases "fs_walk (entries d) p (parents p)")
  case (Some e)
  from fs_walk_code[OF Some] Some assms show ?thesis
    by (auto simp: unlink_swallows fs_unlink_def fs_log_def)
next
  case None
  show ?thesis
  proof (cases "stat (entries d) p")
    case absent: None
    with None show ?thesis by (simp add: unlink_swallows fs_unlink_def fs_log_def)
  next
    case (Some entry)
    show ?thesis
    proof (cases entry)
      case Directory
      with Some None assms show ?thesis by (simp add: unlink_swallows fs_unlink_def)
    next
      case (File content)
      with Some None assms have ok: "p \<notin> denied d"
        by (auto simp: unlink_swallows fs_unlink_def)
      from Some File have "p \<noteq> ''/''" by (auto simp: stat_def)
      then have gone: "stat ((entries d)(p := None)) p = None" by (simp add: stat_def)
      from Some File None ok
      have first: "snd (unlink p d) = fs_log (Unlink p) (d\<lparr>entries := (entries d)(p := None)\<rparr>)"
        by (simp add: unlink_swallows fs_unlink_def)
      show ?thesis
        unfolding first using None gone
        by (simp add: unlink_swallows fs_unlink_def fs_log_def fs_walk_parents_update)
    qed
  qed
qed

lemma delete_absent: "map_of al k = None \<Longrightarrow> AList.delete k al = al"
  by (induction al) (auto split: if_splits)

lemma fs_mkdir_recursive_creates_parents:
  "fs_mkdir ''/ws/.kanbn/tasks'' True \<lparr>entries = Map.empty, denied = {}, calls = []\<rparr> =
     (Inr (),
      \<lparr>entries = [''/ws'' \<mapsto> Directory, ''/ws/.kanbn'' \<mapsto> Directory,
                  ''/ws/.kanbn/tasks'' \<mapsto> Directory],
       denied = {}, calls = [Mkdir ''/ws/.kanbn/tasks'' True]\<rparr>)"
proof -
  have ps: "parents ''/ws/.kanbn/tasks'' = [''/ws'', ''/ws/.kanbn'']" by code_simp
  show ?thesis by (simp add: fs_mkdir_def ps stat_def fs_log_def)
qed

lemma fs_writeFile_missing_directory:
  "fs_writeFile ''/ws/.kanbn/tasks/a.md'' ''text'' \<lparr>entries = Map.empty, denied = {}, calls = []\<rparr> =
     (Inl (SystemError ''ENOENT'' ''/ws/.kanbn/tasks/a.md''),
      \<lparr>entries = Map.empty, denied = {},
       calls = [WriteFile ''/ws/.kanbn/tasks/a.md'' ''text'']\<rparr>)"
proof -
  have ps: "parents ''/ws/.kanbn/tasks/a.md'' = [''/ws'', ''/ws/.kanbn'', ''/ws/.kanbn/tasks'']"
    by code_simp
  show ?thesis by (simp add: fs_writeFile_def ps stat_def fs_log_def)
qed

text \<open>
  C8, as the code has it. In the disk-backed classes \<^verbatim>\<open>mkdir\<close> and \<^verbatim>\<open>unlink\<close> make the call
  of the host and nothing else; they succeed when it succeeds, \<^verbatim>\<open>mkdir\<close> also when it fails
  with \<^verbatim>\<open>EEXIST\<close> and \<^verbatim>\<open>unlink\<close> also when it fails with \<^verbatim>\<open>ENOENT\<close>, and a failure with any
  other code is rethrown as it is. So \<^verbatim>\<open>mkdir\<close> on a path where a directory exists succeeds
  and leaves the entries as they are, and a \<^verbatim>\<open>mkdir\<close> after a successful one succeeds and
  changes nothing more; \<^verbatim>\<open>unlink\<close> succeeds and leaves the entries as they are on a path
  with no entry below existing directories and on a path with a missing parent directory,
  an \<^verbatim>\<open>unlink\<close> after a successful one succeeds and changes nothing more, and \<^verbatim>\<open>unlink\<close> on
  a path below a file rethrows the \<^verbatim>\<open>ENOTDIR\<close> of the host. In the fully virtual class
  \<^verbatim>\<open>mkdir\<close> and \<^verbatim>\<open>unlink\<close> always succeed; \<^verbatim>\<open>mkdir\<close> marks the path as existing and touches
  nothing else, so a second one changes nothing; \<^verbatim>\<open>unlink\<close> of a path in neither map leaves
  both maps as they are, and every \<^verbatim>\<open>unlink\<close> fires the change emitter for its path.
\<close>

theorem mkdir_unlink_idempotent:
  "(fst (fs_mkdir p r d) = Inr () \<longrightarrow> fst (mkdir p r d) = Inr ()) \<and>
   (fst (fs_mkdir p r d) = Inl e \<longrightarrow>
      fst (mkdir p r d) = (if code_of e = Some ''EEXIST'' then Inr () else Inl e)) \<and>
   snd (mkdir p r d) = snd (fs_mkdir p r d) \<and>
   (fst (fs_unlink p d) = Inr () \<longrightarrow> fst (unlink p d) = Inr ()) \<and>
   (fst (fs_unlink p d) = Inl e \<longrightarrow>
      fst (unlink p d) = (if code_of e = Some ''ENOENT'' then Inr () else Inl e)) \<and>
   snd (unlink p d) = snd (fs_unlink p d) \<and>
   (stat (entries d) p = Some Directory \<and> fs_walk (entries d) p (parents p) = None \<longrightarrow>
      fst (mkdir p r d) = Inr () \<and> entries (snd (mkdir p r d)) = entries d) \<and>
   (fst (mkdir p r d) = Inr () \<longrightarrow>
      fst (mkdir p r (snd (mkdir p r d))) = Inr () \<and>
      entries (snd (mkdir p r (snd (mkdir p r d)))) = entries (snd (mkdir p r d))) \<and>
   (stat (entries d) p = None \<and> fs_walk (entries d) p (parents p) = None \<longrightarrow>
      fst (unlink p d) = Inr () \<and> entries (snd (unlink p d)) = entries d) \<and>
   (fs_walk (entries d) p (parents p) = Some (SystemError ''ENOENT'' p) \<longrightarrow>
      fst (unlink p d) = Inr () \<and> entries (snd (unlink p d)) = entries d) \<and>
   (fs_walk (entries d) p (parents p) = Some (SystemError ''ENOTDIR'' p) \<longrightarrow>
      unlink p d = (Inl (SystemError ''ENOTDIR'' p), fs_log (Unlink p) d)) \<and>
   (fst (unlink p d) = Inr () \<longrightarrow>
      fst (unlink p (snd (unlink p d))) = Inr () \<and>
      entries (snd (unlink p (snd (unlink p d)))) = entries (snd (unlink p d))) \<and>
   mkdir_virtual a p r =
     (Inr (), a\<lparr>fileExistsMap := AList.update (normalizePath p) True (fileExistsMap a)\<rparr>) \<and>
   mkdir_virtual (snd (mkdir_virtual a p r)) p r = (Inr (), snd (mkdir_virtual a p r)) \<and>
   fst (unlink_virtual a p) = Inr () \<and>
   onDidChangeEmitter (snd (unlink_virtual a p)) = onDidChangeEmitter a @ [p] \<and>
   (\<not> has (fileContentMap a) (normalizePath p) \<and> \<not> has (fileExistsMap a) (normalizePath p) \<longrightarrow>
      fileContentMap (snd (unlink_virtual a p)) = fileContentMap a \<and>
      fileExistsMap (snd (unlink_virtual a p)) = fileExistsMap a)"
proof -
  have host:
    "(fst (fs_mkdir p r d) = Inr () \<longrightarrow> fst (mkdir p r d) = Inr ()) \<and>
     (fst (fs_mkdir p r d) = Inl e \<longrightarrow>
        fst (mkdir p r d) = (if code_of e = Some ''EEXIST'' then Inr () else Inl e)) \<and>
     snd (mkdir p r d) = snd (fs_mkdir p r d) \<and>
     (fst (fs_unlink p d) = Inr () \<longrightarrow> fst (unlink p d) = Inr ()) \<and>
     (fst (fs_unlink p d) = Inl e \<longrightarrow>
        fst (unlink p d) = (if code_of e = Some ''ENOENT'' then Inr () else Inl e)) \<and>
     snd (unlink p d) = snd (fs_unlink p d)"
    by (simp add: mkdir_swallows unlink_swallows)
  have again: "mkdir_virtual (snd (mkdir_virtual a p r)) p r = (Inr (), snd (mkdir_virtual a p r))"
    by (simp add: mkdir_virtual_def update_last)
  have virtual:
    "mkdir_virtual a p r =
       (Inr (), a\<lparr>fileExistsMap := AList.update (normalizePath p) True (fileExistsMap a)\<rparr>) \<and>
     fst (unlink_virtual a p) = Inr () \<and>
     onDidChangeEmitter (snd (unlink_virtual a p)) = onDidChangeEmitter a @ [p] \<and>
     (\<not> has (fileContentMap a) (normalizePath p) \<and> \<not> has (fileExistsMap a) (normalizePath p) \<longrightarrow>
        fileContentMap (snd (unlink_virtual a p)) = fileContentMap a \<and>
        fileExistsMap (snd (unlink_virtual a p)) = fileExistsMap a)"
    by (simp add: mkdir_virtual_def unlink_virtual_def has_def delete_absent)
  from host again virtual mkdir_existing[of d p r] mkdir_twice[of p r d] unlink_missing[of d p]
    unlink_missing_parent[of d p] unlink_below_file[of d p] unlink_twice[of p d]
  show ?thesis by blast
qed

theorem mkdir_unlink_idempotent_witness:
  "fst (mkdir ''/ws/.kanbn'' False
          \<lparr>entries = [''/ws'' \<mapsto> Directory, ''/ws/.kanbn'' \<mapsto> Directory],
           denied = {}, calls = []\<rparr>) = Inr () \<and>
   fst (mkdir ''/ws/.kanbn'' False
          (snd (mkdir ''/ws/.kanbn'' False
                  \<lparr>entries = [''/ws'' \<mapsto> Directory], denied = {}, calls = []\<rparr>))) = Inr () \<and>
   fst (unlink ''/ws/.kanbn/tasks/a.md''
          \<lparr>entries = [''/ws'' \<mapsto> Directory, ''/ws/.kanbn'' \<mapsto> Directory,
                      ''/ws/.kanbn/tasks'' \<mapsto> Directory],
           denied = {}, calls = []\<rparr>) = Inr () \<and>
   fst (unlink ''/ws/.kanbn/tasks/a.md''
          \<lparr>entries = [''/ws'' \<mapsto> Directory], denied = {}, calls = []\<rparr>) = Inr () \<and>
   fst (mkdir ''/ws/.kanbn'' False \<lparr>entries = Map.empty, denied = {}, calls = []\<rparr>) =
     Inl (SystemError ''ENOENT'' ''/ws/.kanbn'') \<and>
   fst (mkdir ''/ro'' False \<lparr>entries = Map.empty, denied = {''/ro''}, calls = []\<rparr>) =
     Inl (SystemError ''EACCES'' ''/ro'') \<and>
   fst (unlink ''/ws'' \<lparr>entries = [''/ws'' \<mapsto> Directory], denied = {}, calls = []\<rparr>) =
     Inl (SystemError ''EISDIR'' ''/ws'') \<and>
   fst (mkdir ''/ws/.kanbn/tasks'' True
          (snd (mkdir ''/ws/.kanbn/tasks'' True \<lparr>entries = Map.empty, denied = {}, calls = []\<rparr>))) =
     Inr ()"
proof -
  define E :: disk where "E = \<lparr>entries = Map.empty, denied = {}, calls = []\<rparr>"
  define W :: disk where "W = \<lparr>entries = [''/ws'' \<mapsto> Directory], denied = {}, calls = []\<rparr>"
  define K :: disk where
    "K = \<lparr>entries = [''/ws'' \<mapsto> Directory, ''/ws/.kanbn'' \<mapsto> Directory], denied = {}, calls = []\<rparr>"
  define T :: disk where
    "T = \<lparr>entries = [''/ws'' \<mapsto> Directory, ''/ws/.kanbn'' \<mapsto> Directory,
                    ''/ws/.kanbn/tasks'' \<mapsto> Directory], denied = {}, calls = []\<rparr>"
  define R :: disk where "R = \<lparr>entries = Map.empty, denied = {''/ro''}, calls = []\<rparr>"
  define A where "A = new_adapter \<lparr>fsPath = ''/ws/.kanbn/index.md''\<rparr> (\<lambda>w::string. w) (\<lambda>c w. c)"
  have pk: "parents ''/ws/.kanbn'' = [''/ws'']" by code_simp
  have pa: "parents ''/ws/.kanbn/tasks/a.md'' = [''/ws'', ''/ws/.kanbn'', ''/ws/.kanbn/tasks'']"
    by code_simp
  have pr: "parents ''/ro'' = []" "parents ''/ws'' = []" by code_simp+
  have k1: "stat (entries K) ''/ws/.kanbn'' = Some Directory \<and>
            fs_walk (entries K) ''/ws/.kanbn'' (parents ''/ws/.kanbn'') = None"
    by (simp add: K_def pk stat_def)
  from mkdir_unlink_idempotent[of "''/ws/.kanbn''" False K "SystemError ''EEXIST'' ''/ws/.kanbn''" A] k1
  have c1: "fst (mkdir ''/ws/.kanbn'' False K) = Inr ()" by blast
  have w1: "fst (fs_mkdir ''/ws/.kanbn'' False W) = Inr ()"
    by (simp add: W_def fs_mkdir_def pk stat_def)
  from mkdir_unlink_idempotent[of "''/ws/.kanbn''" False W "SystemError ''EEXIST'' ''/ws/.kanbn''" A] w1
  have c2: "fst (mkdir ''/ws/.kanbn'' False (snd (mkdir ''/ws/.kanbn'' False W))) = Inr ()" by blast
  have t1: "stat (entries T) ''/ws/.kanbn/tasks/a.md'' = None \<and>
            fs_walk (entries T) ''/ws/.kanbn/tasks/a.md'' (parents ''/ws/.kanbn/tasks/a.md'') = None"
    by (simp add: T_def pa stat_def)
  from mkdir_unlink_idempotent[of "''/ws/.kanbn/tasks/a.md''" False T "SystemError ''ENOENT'' ''/ws/.kanbn/tasks/a.md''" A] t1
  have c3: "fst (unlink ''/ws/.kanbn/tasks/a.md'' T) = Inr ()" by blast
  have w2: "fs_walk (entries W) ''/ws/.kanbn/tasks/a.md'' (parents ''/ws/.kanbn/tasks/a.md'') =
              Some (SystemError ''ENOENT'' ''/ws/.kanbn/tasks/a.md'')"
    by (simp add: W_def pa stat_def)
  from mkdir_unlink_idempotent[of "''/ws/.kanbn/tasks/a.md''" False W "SystemError ''ENOENT'' ''/ws/.kanbn/tasks/a.md''" A] w2
  have c4: "fst (unlink ''/ws/.kanbn/tasks/a.md'' W) = Inr ()" by blast
  have e1: "fst (fs_mkdir ''/ws/.kanbn'' False E) = Inl (SystemError ''ENOENT'' ''/ws/.kanbn'')"
    by (simp add: E_def fs_mkdir_def pk stat_def)
  from mkdir_unlink_idempotent[of "''/ws/.kanbn''" False E "SystemError ''ENOENT'' ''/ws/.kanbn''" A] e1
  have c5: "fst (mkdir ''/ws/.kanbn'' False E) =
      (if code_of (SystemError ''ENOENT'' ''/ws/.kanbn'') = Some ''EEXIST'' then Inr ()
       else Inl (SystemError ''ENOENT'' ''/ws/.kanbn''))" by blast
  have r1: "fst (fs_mkdir ''/ro'' False R) = Inl (SystemError ''EACCES'' ''/ro'')"
    by (simp add: R_def fs_mkdir_def pr stat_def)
  from mkdir_unlink_idempotent[of "''/ro''" False R "SystemError ''EACCES'' ''/ro''" A] r1
  have c6: "fst (mkdir ''/ro'' False R) =
      (if code_of (SystemError ''EACCES'' ''/ro'') = Some ''EEXIST'' then Inr ()
       else Inl (SystemError ''EACCES'' ''/ro''))" by blast
  have u1: "fst (fs_unlink ''/ws'' W) = Inl (SystemError ''EISDIR'' ''/ws'')"
    by (simp add: W_def fs_unlink_def pr stat_def)
  from mkdir_unlink_idempotent[of "''/ws''" False W "SystemError ''EISDIR'' ''/ws''" A] u1
  have c7: "fst (unlink ''/ws'' W) =
      (if code_of (SystemError ''EISDIR'' ''/ws'') = Some ''ENOENT'' then Inr ()
       else Inl (SystemError ''EISDIR'' ''/ws''))" by blast
  have pt: "parents ''/ws/.kanbn/tasks'' = [''/ws'', ''/ws/.kanbn'']" by code_simp
  have m1: "fst (fs_mkdir ''/ws/.kanbn/tasks'' True E) = Inr ()"
    by (simp add: E_def fs_mkdir_def pt stat_def)
  from mkdir_unlink_idempotent[of "''/ws/.kanbn/tasks''" True E "SystemError ''EEXIST'' ''/ws/.kanbn/tasks''" A] m1
  have c8: "fst (mkdir ''/ws/.kanbn/tasks'' True (snd (mkdir ''/ws/.kanbn/tasks'' True E))) = Inr ()"
    by blast
  from c5 have c5': "fst (mkdir ''/ws/.kanbn'' False E) = Inl (SystemError ''ENOENT'' ''/ws/.kanbn'')"
    by simp
  from c6 have c6': "fst (mkdir ''/ro'' False R) = Inl (SystemError ''EACCES'' ''/ro'')" by simp
  from c7 have c7': "fst (unlink ''/ws'' W) = Inl (SystemError ''EISDIR'' ''/ws'')" by simp
  from c1 c2 c3 c4 c5' c6' c7' c8 show ?thesis
    unfolding E_def W_def K_def T_def R_def by blast
qed

text \<open>
  C8 as stated fails in two places. In the disk-backed classes \<^verbatim>\<open>unlink\<close> of a path that
  does not exist throws when the path lies below a file: the host fails with \<^verbatim>\<open>ENOTDIR\<close>,
  not \<^verbatim>\<open>ENOENT\<close>. In the fully virtual class \<^verbatim>\<open>unlink\<close> of a path that does not exist is
  not without effect: it fires the change emitter for the path.
\<close>

theorem unlink_missing_counterexample:
  "stat (entries \<lparr>entries = [''/ws'' \<mapsto> Directory, ''/ws/notes'' \<mapsto> File ''text''],
                  denied = {}, calls = []\<rparr>) ''/ws/notes/a.md'' = None \<and>
   fst (unlink ''/ws/notes/a.md''
          \<lparr>entries = [''/ws'' \<mapsto> Directory, ''/ws/notes'' \<mapsto> File ''text''],
           denied = {}, calls = []\<rparr>) = Inl (SystemError ''ENOTDIR'' ''/ws/notes/a.md'') \<and>
   \<not> has (fileContentMap (new_adapter \<lparr>fsPath = ''/ws/.kanbn/index.md''\<rparr> (\<lambda>w::string. w) (\<lambda>c w. c)))
         (normalizePath ''/ws/.kanbn/tasks/a.md'') \<and>
   onDidChangeEmitter (new_adapter \<lparr>fsPath = ''/ws/.kanbn/index.md''\<rparr> (\<lambda>w::string. w) (\<lambda>c w. c)) = [] \<and>
   onDidChangeEmitter
     (snd (unlink_virtual (new_adapter \<lparr>fsPath = ''/ws/.kanbn/index.md''\<rparr> (\<lambda>w::string. w) (\<lambda>c w. c))
             ''/ws/.kanbn/tasks/a.md'')) = [''/ws/.kanbn/tasks/a.md'']"
proof -
  have ps: "parents ''/ws/notes/a.md'' = [''/ws'', ''/ws/notes'']" by code_simp
  show ?thesis
    by (simp add: ps stat_def unlink_def fs_unlink_def fs_log_def has_def new_adapter_def
          unlink_virtual_def)
qed

subsection \<open>Listing files in the fully virtual adapter\<close>

lemma set_glob_virtual:
  "set (glob_virtual a pattern realFiles) =
     set (glob_virtual_files a pattern) \<union>
     {f \<in> set (glob realFiles). \<not> has (fileContentMap a) (normalizePath f)}"
  by (auto simp: glob_virtual_def glob_def split: sum.splits)

lemma glob_virtual_files_keys:
  "set (glob_virtual_files a pattern) \<subseteq> fst ` set (fileContentMap a)"
  by (auto simp: glob_virtual_files_def)

lemma distinct_glob_virtual_files:
  "distinct (map fst (fileContentMap a)) \<Longrightarrow> distinct (glob_virtual_files a pattern)"
  by (simp add: glob_virtual_files_def)

lemma has_keys: "has al k \<longleftrightarrow> k \<in> fst ` set al"
  by (simp add: has_def map_of_eq_None_iff)

lemma distinct_glob_virtual:
  assumes "distinct (map fst (fileContentMap a))" "distinct (glob realFiles)"
    and "\<forall>f\<in>set (glob realFiles). normalizePath f = f"
  shows "distinct (glob_virtual a pattern realFiles)"
proof -
  have "distinct (glob_virtual_files a pattern)"
    using assms(1) by (rule distinct_glob_virtual_files)
  moreover have "distinct (filter (\<lambda>f. \<not> has (fileContentMap a) (normalizePath f)) (glob realFiles))"
    using assms(2) by simp
  moreover have "set (glob_virtual_files a pattern) \<inter>
      set (filter (\<lambda>f. \<not> has (fileContentMap a) (normalizePath f)) (glob realFiles)) = {}"
    using glob_virtual_files_keys[of a pattern] assms(3) by (auto simp: has_keys)
  ultimately show ?thesis
    by (cases realFiles) (simp_all add: glob_virtual_def glob_def)
qed

lemma matches_md_prefix_suffix:
  assumes "matches_md D f"
  shows "startsWith f D \<and> endsWith f ''.md''"
proof -
  from assms have t: "take (length D + 1) f = D @ ''/''"
    by (simp add: matches_md_def startsWith_def)
  have "take (length D) f = take (length D) (take (length D + 1) f)" by (simp add: min_def)
  also have "\<dots> = D" by (simp only: t) simp
  finally have "startsWith f D" by (simp add: startsWith_def)
  with assms show ?thesis by (simp add: matches_md_def)
qed

lemma matches_md_name:
  assumes "name \<noteq> []" "CHR ''/'' \<notin> set name" "hd name \<noteq> CHR ''.''"
  shows "matches_md D (D @ ''/'' @ name @ ''.md'')"
  using assms by (cases name) (simp_all add: matches_md_def startsWith_def endsWith_def Let_def)

lemma matches_md_split:
  assumes m: "matches_md D f"
  shows "\<exists>name. f = D @ ''/'' @ name @ ''.md'' \<and> name \<noteq> [] \<and> CHR ''/'' \<notin> set name \<and>
           hd name \<noteq> CHR ''.''"
proof -
  define rest where "rest = drop (length D + 1) f"
  from m have t: "take (length D + 1) f = D @ ''/''"
    by (simp add: matches_md_def startsWith_def)
  have "f = take (length D + 1) f @ rest" by (simp add: rest_def)
  with t have f: "f = D @ ''/'' @ rest" by simp
  from m have r: "3 < length rest" "CHR ''/'' \<notin> set rest" "\<not> startsWith rest ''.''"
    unfolding rest_def matches_md_def by (simp_all add: Let_def)
  from m have "endsWith f ''.md''" by (simp add: matches_md_def)
  then have "drop (length f - 3) f = ''.md''" by (simp add: endsWith_def numeral_3_eq_3)
  moreover have "drop (length f - 3) f = drop (length rest - 3) rest"
  proof -
    have "length f = length D + 1 + length rest" by (subst f) simp
    with r(1) have "length f - 3 = (length rest - 3) + (length D + 1)" by arith
    then have "drop (length f - 3) f = drop ((length rest - 3) + (length D + 1)) f" by (simp only:)
    also have "\<dots> = drop (length rest - 3) (drop (length D + 1) f)" by (simp only: drop_drop)
    finally show ?thesis by (simp only: rest_def)
  qed
  ultimately have e: "drop (length rest - 3) rest = ''.md''" by simp
  define name where "name = take (length rest - 3) rest"
  have "rest = name @ drop (length rest - 3) rest" by (simp add: name_def)
  with e have rest: "rest = name @ ''.md''" by simp
  from r(1) have ne: "name \<noteq> []" by (auto simp: name_def)
  from r(2) have ns: "CHR ''/'' \<notin> set name" by (subst (asm) rest) simp
  from r(3) ne have nd: "hd name \<noteq> CHR ''.''"
    by (subst (asm) rest, cases name) (simp_all add: startsWith_def)
  from f rest ne ns nd show ?thesis by blast
qed

lemma glob_pattern_md:
  "glob_directory (D @ ''/*.md'') = D \<and> glob_filePattern (D @ ''/*.md'') = ''*.md''"
proof -
  have "lastIndexOf (D @ CHR ''/'' # ''*.md'') CHR ''/'' = Some (length D)"
    by (rule lastIndexOf_last) simp
  then show ?thesis by (simp add: glob_directory_def glob_filePattern_def)
qed


text \<open>
  C9, as the code has it by design: for the patterns \<^verbatim>\<open>D/*.md\<close> with a directory path
  \<open>D\<close> in normalized form. Let every virtual entry that begins with \<open>D\<close> and ends in
  \<^verbatim>\<open>.md\<close> be a file directly in \<open>D\<close> with a name that does not begin with a dot, and let
  the glob library list each real file matching the pattern once and in normalized form.
  Then \<^verbatim>\<open>glob\<close> of the fully virtual class returns the union of the virtual entries matching
  the pattern and the real files matching it, the virtual entries alone when the library
  fails, and no path twice (the keys of a \<^verbatim>\<open>Map\<close> are distinct).
\<close>

theorem glob_virtual_md:
  assumes pattern: "pattern = directory @ ''/*.md''"
    and normalized: "normalizePath directory = directory"
    and children: "\<forall>k\<in>set (map fst (fileContentMap a)).
                     startsWith k directory \<and> endsWith k ''.md'' \<longrightarrow> matches_md directory k"
    and real: "\<forall>f\<in>set realFiles. matches_md directory f \<and> normalizePath f = f"
    and once: "distinct realFiles"
  shows "set (glob_virtual a pattern (Inr realFiles)) =
           {k \<in> set (map fst (fileContentMap a)). matches_md directory k} \<union> set realFiles \<and>
         set (glob_virtual a pattern (Inl e)) =
           {k \<in> set (map fst (fileContentMap a)). matches_md directory k} \<and>
         (distinct (map fst (fileContentMap a)) \<longrightarrow> distinct (glob_virtual a pattern (Inr realFiles)))"
proof -
  from pattern glob_pattern_md[of directory]
  have p: "glob_directory pattern = directory" "glob_filePattern pattern = ''*.md''" by simp_all
  have files: "glob_virtual_files a pattern =
      filter (\<lambda>k. startsWith k directory \<and> endsWith k ''.md'') (map fst (fileContentMap a))"
    by (simp add: glob_virtual_files_def p normalized)
  have same: "startsWith k directory \<and> endsWith k ''.md'' \<longleftrightarrow> matches_md directory k"
    if "k \<in> set (map fst (fileContentMap a))" for k
    using that children matches_md_prefix_suffix[of directory k] by blast
  have "filter (\<lambda>k. startsWith k directory \<and> endsWith k ''.md'') (map fst (fileContentMap a)) =
        filter (matches_md directory) (map fst (fileContentMap a))"
    by (rule filter_cong[OF refl]) (rule same)
  with files have virtual: "set (glob_virtual_files a pattern) =
      {k \<in> set (map fst (fileContentMap a)). matches_md directory k}"
    by (simp only: set_filter)
  have listed: "f \<in> set (glob_virtual_files a pattern)"
    if f: "f \<in> set realFiles" and h: "has (fileContentMap a) (normalizePath f)" for f
  proof -
    from real f have m: "matches_md directory f" and n: "normalizePath f = f" by blast+
    from h n have "f \<in> set (map fst (fileContentMap a))" by (simp add: has_keys)
    with m show ?thesis unfolding virtual by blast
  qed
  have "set (glob_virtual a pattern (Inr realFiles)) =
          set (glob_virtual_files a pattern) \<union>
          {f \<in> set realFiles. \<not> has (fileContentMap a) (normalizePath f)}"
    by (simp add: set_glob_virtual glob_def)
  also have "\<dots> = set (glob_virtual_files a pattern) \<union> set realFiles"
    using listed by blast
  finally have union: "set (glob_virtual a pattern (Inr realFiles)) =
      {k \<in> set (map fst (fileContentMap a)). matches_md directory k} \<union> set realFiles"
    by (simp only: virtual)
  have fails: "set (glob_virtual a pattern (Inl e)) =
      {k \<in> set (map fst (fileContentMap a)). matches_md directory k}"
    using virtual by (simp add: glob_virtual_def)
  have d: "distinct (glob_virtual a pattern (Inr realFiles))" if "distinct (map fst (fileContentMap a))"
  proof (rule distinct_glob_virtual)
    show "distinct (map fst (fileContentMap a))" by (rule that)
    show "distinct (glob (Inr realFiles))" using once by (simp add: glob_def)
    show "\<forall>f\<in>set (glob (Inr realFiles)). normalizePath f = f" using real by (simp add: glob_def)
  qed
  from union fails d show ?thesis by blast
qed

theorem glob_virtual_md_witness:
  "distinct (glob_virtual
     (fst (snd (writeFile_virtual
        (new_adapter \<lparr>fsPath = ''/ws/.kanbn/index.md''\<rparr> (\<lambda>w::string. w) (\<lambda>c w. c))
        ''/ws/.kanbn/tasks/a.md'' ''# A'' [])))
     ''/ws/.kanbn/tasks/*.md'' (Inr [''/ws/.kanbn/tasks/a.md'', ''/ws/.kanbn/tasks/b.md''])) \<and>
   set (glob_virtual
     (fst (snd (writeFile_virtual
        (new_adapter \<lparr>fsPath = ''/ws/.kanbn/index.md''\<rparr> (\<lambda>w::string. w) (\<lambda>c w. c))
        ''/ws/.kanbn/tasks/a.md'' ''# A'' [])))
     ''/ws/.kanbn/tasks/*.md'' (Inr [''/ws/.kanbn/tasks/a.md'', ''/ws/.kanbn/tasks/b.md''])) =
     {''/ws/.kanbn/tasks/a.md'', ''/ws/.kanbn/tasks/b.md''}"
proof -
  define A where "A = fst (snd (writeFile_virtual
        (new_adapter \<lparr>fsPath = ''/ws/.kanbn/index.md''\<rparr> (\<lambda>w::string. w) (\<lambda>c w. c))
        ''/ws/.kanbn/tasks/a.md'' ''# A'' []))"
  define R :: "string list" where "R = [''/ws/.kanbn/tasks/a.md'', ''/ws/.kanbn/tasks/b.md'']"
  have p: "''/ws/.kanbn/tasks/*.md'' = ''/ws/.kanbn/tasks'' @ ''/*.md''" by simp
  have a: "fileContentMap A = [(''/ws/.kanbn/tasks/a.md'', ''# A'')]"
    unfolding A_def by code_simp
  have n: "normalizePath ''/ws/.kanbn/tasks'' = ''/ws/.kanbn/tasks''"
     "normalizePath ''/ws/.kanbn/tasks/a.md'' = ''/ws/.kanbn/tasks/a.md''"
     "normalizePath ''/ws/.kanbn/tasks/b.md'' = ''/ws/.kanbn/tasks/b.md''"
    by code_simp+
  have m: "matches_md ''/ws/.kanbn/tasks'' ''/ws/.kanbn/tasks/a.md''"
     "matches_md ''/ws/.kanbn/tasks'' ''/ws/.kanbn/tasks/b.md''"
    by code_simp+
  have h3: "\<forall>k\<in>set (map fst (fileContentMap A)).
      startsWith k ''/ws/.kanbn/tasks'' \<and> endsWith k ''.md'' \<longrightarrow> matches_md ''/ws/.kanbn/tasks'' k"
    by (simp add: a m)
  have h4: "\<forall>f\<in>set R. matches_md ''/ws/.kanbn/tasks'' f \<and> normalizePath f = f"
    by (simp add: R_def m n)
  have h5: "distinct R" by (simp add: R_def)
  have d: "distinct (map fst (fileContentMap A))" by (simp add: a)
  have v: "{k \<in> set (map fst (fileContentMap A)). matches_md ''/ws/.kanbn/tasks'' k} \<union> set R =
      {''/ws/.kanbn/tasks/a.md'', ''/ws/.kanbn/tasks/b.md''}"
    using m(1) by (auto simp: a R_def)
  note T = glob_virtual_md[OF p n(1) h3 h4 h5]
  from T d have "distinct (glob_virtual A ''/ws/.kanbn/tasks/*.md'' (Inr R))" by blast
  moreover from T have "set (glob_virtual A ''/ws/.kanbn/tasks/*.md'' (Inr R)) =
     {''/ws/.kanbn/tasks/a.md'', ''/ws/.kanbn/tasks/b.md''}"
    unfolding v by blast
  ultimately show ?thesis unfolding A_def R_def by blast
qed

text \<open>
  Where a virtual entry begins with the directory of the pattern and ends in \<^verbatim>\<open>.md\<close>
  without being a file of that directory, the code lists it all the same, for it tests the
  beginning and the ending of the path only: with the pattern \<^verbatim>\<open>/ws/.kanbn/tasks/*.md\<close>,
  an entry in the directory \<^verbatim>\<open>tasks-old\<close> and one in a subdirectory of \<^verbatim>\<open>tasks\<close> are
  listed. The statement above leaves these cases out.
\<close>

lemma glob_virtual_lists_by_prefix:
  "\<not> matches_md ''/ws/.kanbn/tasks'' ''/ws/.kanbn/tasks-old/z.md'' \<and>
   \<not> matches_md ''/ws/.kanbn/tasks'' ''/ws/.kanbn/tasks/sub/deep.md'' \<and>
   glob_virtual
     (fst (snd (writeFile_virtual
        (fst (snd (writeFile_virtual
           (new_adapter \<lparr>fsPath = ''/ws/.kanbn/index.md''\<rparr> (\<lambda>w::string. w) (\<lambda>c w. c))
           ''/ws/.kanbn/tasks-old/z.md'' ''# Z'' [])))
        ''/ws/.kanbn/tasks/sub/deep.md'' ''# D'' [])))
     ''/ws/.kanbn/tasks/*.md'' (Inr []) =
   [''/ws/.kanbn/tasks-old/z.md'', ''/ws/.kanbn/tasks/sub/deep.md'']"
  by code_simp

text \<open>
  C9 as stated fails for a pattern whose last component is not \<^verbatim>\<open>*.md\<close>: a file that the
  glob library finds on disk and that also has a virtual entry is listed neither as a
  virtual entry nor as a real file.
\<close>

theorem glob_virtual_counterexample:
  "has (fileContentMap
     (fst (snd (writeFile_virtual
        (new_adapter \<lparr>fsPath = ''/ws/.kanbn/index.md''\<rparr> (\<lambda>w::string. w) (\<lambda>c w. c))
        ''/ws/.kanbn/tasks/a.md'' ''# A'' [])))) ''/ws/.kanbn/tasks/a.md'' \<and>
   glob_virtual
     (fst (snd (writeFile_virtual
        (new_adapter \<lparr>fsPath = ''/ws/.kanbn/index.md''\<rparr> (\<lambda>w::string. w) (\<lambda>c w. c))
        ''/ws/.kanbn/tasks/a.md'' ''# A'' [])))
     ''/ws/.kanbn/tasks/a.md'' (Inr [''/ws/.kanbn/tasks/a.md'']) = []"
  by code_simp

end
